theory Spec2Isabelle
  imports Main "HOL-Library.Word" "HOL-Library.Sublist" "HOL-Library.List_Lexorder"
begin


section \<open>Strings, exceptions and the platform's string functions\<close>

text \<open>
  A JavaScript string is a sequence of 16-bit code units. String literals of the
  source are written \<open>js ''...''\<close>.
\<close>

type_synonym jsstring = "16 word list"

definition js :: "string \<Rightarrow> jsstring" where
  "js s = map of_char s"

text \<open>\<open>String.prototype.startsWith\<close>.\<close>

definition startsWith :: "jsstring \<Rightarrow> jsstring \<Rightarrow> bool" where
  "startsWith s p = (take (length p) s = p)"

text \<open>
  The exceptions that the code of the worker can raise: \<open>URIError\<close> from
  \<open>encodeURIComponent\<close> and \<open>decodeURIComponent\<close>, \<open>InvalidCharacterError\<close> from
  \<open>btoa\<close>, \<open>RangeError\<close> and \<open>TypeError\<close> from \<open>new Response\<close> and \<open>new URL\<close>, and
  whatever the platform raises from \<open>new Request\<close>, \<open>fetch\<close> and \<open>response.text()\<close>
  (\<open>PlatformError\<close> with its message).
\<close>

datatype exn = URIError | InvalidCharacterError | RangeError | TypeError | PlatformError jsstring

subsection \<open>btoa\<close>

text \<open>
  \<open>btoa\<close> raises \<open>InvalidCharacterError\<close> when a code unit of its argument is above
  U+00FF; otherwise it is the Base64 encoding (RFC 4648, with padding) of the bytes.
\<close>

definition b64alphabet :: jsstring where
  "b64alphabet = js ''ABCDEFGHIJKLMNOPQRSTUVWXYZabcdefghijklmnopqrstuvwxyz0123456789+/''"

definition b64char :: "nat \<Rightarrow> 16 word" where
  "b64char n = b64alphabet ! (n mod 64)"

fun base64 :: "nat list \<Rightarrow> jsstring" where
  "base64 [] = []"
| "base64 [a] =
     [b64char (a div 4), b64char ((a mod 4) * 16), of_char CHR ''='', of_char CHR ''='']"
| "base64 [a, b] =
     [b64char (a div 4), b64char ((a mod 4) * 16 + b div 16), b64char ((b mod 16) * 4),
      of_char CHR ''='']"
| "base64 (a # b # c # bs) =
     [b64char (a div 4), b64char ((a mod 4) * 16 + b div 16),
      b64char ((b mod 16) * 4 + c div 64), b64char (c mod 64)] @ base64 bs"

definition latin1 :: "jsstring \<Rightarrow> bool" where
  "latin1 s = list_all (\<lambda>c. c \<le> 0xFF) s"

definition btoa :: "jsstring \<Rightarrow> exn + jsstring" where
  "btoa s = (if latin1 s then Inr (base64 (map unat s)) else Inl InvalidCharacterError)"

subsection \<open>encodeURIComponent and decodeURIComponent\<close>

text \<open>
  The two functions are ECMAScript's \<open>Encode\<close> and \<open>Decode\<close> with an empty set of extra
  characters. Code points and octets are natural numbers. Both raise \<open>URIError\<close>.
\<close>

text \<open>Prefixing the string built so far to the result of the remaining iterations.\<close>

definition prefixed :: "jsstring \<Rightarrow> exn + jsstring \<Rightarrow> exn + jsstring" where
  "prefixed p r = (case r of Inl x \<Rightarrow> Inl x | Inr s \<Rightarrow> Inr (p @ s))"

definition uriUnescaped :: "16 word \<Rightarrow> bool" where
  "uriUnescaped c =
     (c \<in> set (js ''ABCDEFGHIJKLMNOPQRSTUVWXYZabcdefghijklmnopqrstuvwxyz0123456789_-.!~*()'')
      \<or> c = 0x27)"

definition isLeadingSurrogate :: "16 word \<Rightarrow> bool" where
  "isLeadingSurrogate c = (0xD800 \<le> c \<and> c \<le> 0xDBFF)"

definition isTrailingSurrogate :: "16 word \<Rightarrow> bool" where
  "isTrailingSurrogate c = (0xDC00 \<le> c \<and> c \<le> 0xDFFF)"

definition UTF16SurrogatePairToCodePoint :: "16 word \<Rightarrow> 16 word \<Rightarrow> nat" where
  "UTF16SurrogatePairToCodePoint lead trail =
     (unat lead - 0xD800) * 0x400 + (unat trail - 0xDC00) + 0x10000"

definition UTF16EncodeCodePoint :: "nat \<Rightarrow> jsstring" where
  "UTF16EncodeCodePoint cp =
     (if cp \<le> 0xFFFF then [of_nat cp]
      else [of_nat ((cp - 0x10000) div 0x400 + 0xD800),
            of_nat ((cp - 0x10000) mod 0x400 + 0xDC00)])"

text \<open>The UTF-8 transformation of a code point into octets.\<close>

definition utf8 :: "nat \<Rightarrow> nat list" where
  "utf8 cp =
     (if cp < 0x80 then [cp]
      else if cp < 0x800 then [0xC0 + cp div 0x40, 0x80 + cp mod 0x40]
      else if cp < 0x10000 then
        [0xE0 + cp div 0x1000, 0x80 + (cp div 0x40) mod 0x40, 0x80 + cp mod 0x40]
      else
        [0xF0 + cp div 0x40000, 0x80 + (cp div 0x1000) mod 0x40,
         0x80 + (cp div 0x40) mod 0x40, 0x80 + cp mod 0x40])"

definition hexDigit :: "nat \<Rightarrow> 16 word" where
  "hexDigit n = js ''0123456789ABCDEF'' ! (n mod 16)"

text \<open>An octet as \<open>%XX\<close>, and a list of octets.\<close>

definition percentOctet :: "nat \<Rightarrow> jsstring" where
  "percentOctet b = [0x25, hexDigit (b div 16), hexDigit (b mod 16)]"

definition percentOctets :: "nat list \<Rightarrow> jsstring" where
  "percentOctets bs = concat (map percentOctet bs)"

fun encodeURIComponent :: "jsstring \<Rightarrow> exn + jsstring" where
  "encodeURIComponent [] = Inr []"
| "encodeURIComponent (c # cs) =
     (if uriUnescaped c then prefixed [c] (encodeURIComponent cs)
      else if isTrailingSurrogate c then Inl URIError
      else if isLeadingSurrogate c then
        (case cs of
           [] \<Rightarrow> Inl URIError
         | d # ds \<Rightarrow>
             if isTrailingSurrogate d then
               prefixed (percentOctets (utf8 (UTF16SurrogatePairToCodePoint c d)))
                 (encodeURIComponent ds)
             else Inl URIError)
      else prefixed (percentOctets (utf8 (unat c))) (encodeURIComponent cs))"

definition hexValue :: "16 word \<Rightarrow> nat option" where
  "hexValue c =
     (if 0x30 \<le> c \<and> c \<le> 0x39 then Some (unat c - 0x30)
      else if 0x41 \<le> c \<and> c \<le> 0x46 then Some (unat c - 0x37)
      else if 0x61 \<le> c \<and> c \<le> 0x66 then Some (unat c - 0x57)
      else None)"

text \<open>\<open>ParseHexOctet\<close> on the two code units after a percent sign.\<close>

definition parseHexOctet :: "jsstring \<Rightarrow> nat option" where
  "parseHexOctet s =
     (case s of
        h1 # h2 # _ \<Rightarrow>
          (case (hexValue h1, hexValue h2) of
             (Some a, Some b) \<Rightarrow> Some (a * 16 + b)
           | _ \<Rightarrow> None)
      | _ \<Rightarrow> None)"

text \<open>The number of leading 1 bits of an octet.\<close>

definition leadingOnes :: "nat \<Rightarrow> nat" where
  "leadingOnes b =
     (if b < 0x80 then 0 else if b < 0xC0 then 1 else if b < 0xE0 then 2
      else if b < 0xF0 then 3 else if b < 0xF8 then 4 else 5)"

text \<open>The \<open>j\<close> continuation octets \<open>%XX\<close> that follow the first octet of a sequence.\<close>

fun continuationOctets :: "nat \<Rightarrow> jsstring \<Rightarrow> nat list option" where
  "continuationOctets 0 s = Some []"
| "continuationOctets (Suc j) s =
     (case s of
        p # r \<Rightarrow>
          if p = 0x25 then
            (case parseHexOctet r of
               None \<Rightarrow> None
             | Some b \<Rightarrow>
                 (case continuationOctets j (drop 2 r) of
                    None \<Rightarrow> None
                  | Some bs \<Rightarrow> Some (b # bs)))
          else None
      | [] \<Rightarrow> None)"

text \<open>
  The code point of a list of two to four octets, when they are a valid UTF-8 encoding:
  continuation octets are \<open>10xxxxxx\<close>, the encoding is the shortest one, and the value
  is a Unicode scalar value.
\<close>

definition isContinuation :: "nat \<Rightarrow> bool" where
  "isContinuation b = (0x80 \<le> b \<and> b < 0xC0)"

definition utf8CodePoint :: "nat list \<Rightarrow> nat option" where
  "utf8CodePoint octets =
     (case octets of
        [a, b] \<Rightarrow>
          (let v = (a mod 0x20) * 0x40 + b mod 0x40
           in if isContinuation b \<and> 0x80 \<le> v then Some v else None)
      | [a, b, c] \<Rightarrow>
          (let v = (a mod 0x10) * 0x1000 + (b mod 0x40) * 0x40 + c mod 0x40
           in if isContinuation b \<and> isContinuation c \<and> 0x800 \<le> v
                 \<and> \<not> (0xD800 \<le> v \<and> v \<le> 0xDFFF) then Some v else None)
      | [a, b, c, d] \<Rightarrow>
          (let v = (a mod 0x08) * 0x40000 + (b mod 0x40) * 0x1000 + (c mod 0x40) * 0x40
                   + d mod 0x40
           in if isContinuation b \<and> isContinuation c \<and> isContinuation d
                 \<and> 0x10000 \<le> v \<and> v \<le> 0x10FFFF then Some v else None)
      | _ \<Rightarrow> None)"

fun decodeURIComponent :: "jsstring \<Rightarrow> exn + jsstring" where
  "decodeURIComponent [] = Inr []"
| "decodeURIComponent (c # cs) =
     (if c \<noteq> 0x25 then prefixed [c] (decodeURIComponent cs)
      else
        (case parseHexOctet cs of
           None \<Rightarrow> Inl URIError
         | Some b \<Rightarrow>
             let n = leadingOnes b in
             if n = 0 then prefixed [of_nat b] (decodeURIComponent (drop 2 cs))
             else if n = 1 \<or> n > 4 then Inl URIError
             else
               (case continuationOctets (n - 1) (drop 2 cs) of
                  None \<Rightarrow> Inl URIError
                | Some bs \<Rightarrow>
                    (case utf8CodePoint (b # bs) of
                       None \<Rightarrow> Inl URIError
                     | Some v \<Rightarrow>
                         prefixed (UTF16EncodeCodePoint v)
                           (decodeURIComponent (drop (3 * (n - 1)) (drop 2 cs)))))))"

subsection \<open>Small operators\<close>

text \<open>\<open>x || ""\<close> for a string or null \<open>x\<close>.\<close>

definition orEmpty :: "jsstring option \<Rightarrow> jsstring" where
  "orEmpty x = (case x of None \<Rightarrow> [] | Some s \<Rightarrow> s)"

text \<open>\<open>!x\<close> for a string or null (or undefined) \<open>x\<close>.\<close>

definition falsy :: "jsstring option \<Rightarrow> bool" where
  "falsy x = (case x of None \<Rightarrow> True | Some s \<Rightarrow> s = [])"

text \<open>\<open>x || y\<close> for strings or null.\<close>

definition orElse :: "jsstring option \<Rightarrow> jsstring option \<Rightarrow> jsstring option" where
  "orElse x y = (if falsy x then y else x)"

text \<open>\<open>String.prototype.includes\<close>.\<close>

fun includes_str :: "jsstring \<Rightarrow> jsstring \<Rightarrow> bool" where
  "includes_str [] p = (p = [])"
| "includes_str (c # cs) p = (startsWith (c # cs) p \<or> includes_str cs p)"

text \<open>
  \<open>String.prototype.toLowerCase\<close> on the strings it is applied to here, the names of
  headers, which are ASCII: the letters A to Z are mapped to a to z.
\<close>

definition toLowerCase :: "jsstring \<Rightarrow> jsstring" where
  "toLowerCase s = map (\<lambda>c. if 0x41 \<le> c \<and> c \<le> 0x5A then c + 0x20 else c) s"

text \<open>
  \<open>String.prototype.isWellFormed\<close>: every leading surrogate is followed by a trailing
  surrogate, and there is no other trailing surrogate.
\<close>

fun isWellFormed :: "jsstring \<Rightarrow> bool" where
  "isWellFormed [] = True"
| "isWellFormed [c] = (\<not> isLeadingSurrogate c \<and> \<not> isTrailingSurrogate c)"
| "isWellFormed (c # d # cs) =
     (if isLeadingSurrogate c then isTrailingSurrogate d \<and> isWellFormed cs
      else \<not> isTrailingSurrogate c \<and> isWellFormed (d # cs))"

section \<open>Headers\<close>

text \<open>
  A \<open>Headers\<close> object is its header list: the (name, value) pairs in the order in
  which they were added, names as they were written. Names are compared
  byte-case-insensitively. \<open>get\<close> joins the values of all headers of that name with a
  comma and a space, \<open>set\<close> overwrites the first header of that name and removes the
  others, or appends a new header.
\<close>

type_synonym headers = "(jsstring \<times> jsstring) list"

definition lowerUnit :: "16 word \<Rightarrow> 16 word" where
  "lowerUnit c = (if 0x41 \<le> c \<and> c \<le> 0x5A then c + 0x20 else c)"

definition byteLower :: "jsstring \<Rightarrow> jsstring" where
  "byteLower s = map lowerUnit s"

definition sameName :: "jsstring \<Rightarrow> jsstring \<Rightarrow> bool" where
  "sameName a b = (byteLower a = byteLower b)"

fun joinValues :: "jsstring list \<Rightarrow> jsstring" where
  "joinValues [] = []"
| "joinValues [v] = v"
| "joinValues (v # vs) = v @ js '', '' @ joinValues vs"

definition headers_get :: "headers \<Rightarrow> jsstring \<Rightarrow> jsstring option" where
  "headers_get h name =
     (case filter (\<lambda>(n, v). sameName n name) h of
        [] \<Rightarrow> None
      | vs \<Rightarrow> Some (joinValues (map snd vs)))"

fun headers_set :: "headers \<Rightarrow> jsstring \<Rightarrow> jsstring \<Rightarrow> headers" where
  "headers_set [] name value = [(name, value)]"
| "headers_set ((n, v) # h) name value =
     (if sameName n name then (n, value) # filter (\<lambda>(m, w). \<not> sameName m name) h
      else (n, v) # headers_set h name value)"

text \<open>
  Iterating a \<open>Headers\<close> object (\<open>[...headers]\<close>) does not give its header list: the
  names are put in lower case, duplicates among them are dropped and they are sorted
  in ascending order; each name gives one entry, with the values of all headers of
  that name joined, but for \<open>set-cookie\<close>, which gives one entry for each value.
\<close>

definition headerValues :: "headers \<Rightarrow> jsstring \<Rightarrow> jsstring list" where
  "headerValues h name = map snd (filter (\<lambda>(n, v). sameName n name) h)"

definition sortedLowercaseNames :: "headers \<Rightarrow> jsstring list" where
  "sortedLowercaseNames h = sort (remdups (map (\<lambda>(n, v). byteLower n) h))"

definition entriesOfName :: "headers \<Rightarrow> jsstring \<Rightarrow> (jsstring \<times> jsstring) list" where
  "entriesOfName h name =
     (if name = js ''set-cookie'' then map (Pair name) (headerValues h name)
      else [(name, joinValues (headerValues h name))])"

definition Headers_entries :: "headers \<Rightarrow> (jsstring \<times> jsstring) list" where
  "Headers_entries h = concat (map (entriesOfName h) (sortedLowercaseNames h))"

text \<open>
  \<open>new Headers(entries)\<close> for a list of pairs appends each pair to an empty header
  list. The worker gives it pairs that come from iterating a \<open>Headers\<close> object only:
  their names and values are those of headers, and none is refused.
\<close>

definition Headers_new :: "(jsstring \<times> jsstring) list \<Rightarrow> headers" where
  "Headers_new entries = entries"

section \<open>Requests and responses\<close>

text \<open>
  The body of a request or a response (\<open>request.body\<close>, \<open>response.body\<close>) is null
  or a stream of bytes. The first argument of \<open>new Response\<close> is such a body or a
  string, whose bytes are its UTF-8 encoding.
\<close>

datatype body = Null | Stream "8 word list"

datatype bodyInit = Body body | Text jsstring

text \<open>
  The UTF-8 encoding of a string: a surrogate that is not part of a pair is encoded
  as U+FFFD.
\<close>

fun UTF8Encode :: "jsstring \<Rightarrow> nat list" where
  "UTF8Encode [] = []"
| "UTF8Encode (c # cs) =
     (if isLeadingSurrogate c then
        (case cs of
           [] \<Rightarrow> utf8 0xFFFD
         | d # ds \<Rightarrow>
             if isTrailingSurrogate d
             then utf8 (UTF16SurrogatePairToCodePoint c d) @ UTF8Encode ds
             else utf8 0xFFFD @ UTF8Encode cs)
      else if isTrailingSurrogate c then utf8 0xFFFD @ UTF8Encode cs
      else utf8 (unat c) @ UTF8Encode cs)"

text \<open>The object \<open>new URL(request.url)\<close>, of which the worker reads four properties.\<close>

record URL =
  url_pathname :: jsstring
  url_search :: jsstring
  url_protocol :: jsstring
  url_host :: jsstring

record request =
  req_url :: URL
  req_method :: jsstring
  req_headers :: headers
  req_body :: body

record response =
  res_status :: nat
  res_statusText :: jsstring
  res_headers :: headers
  res_body :: body

text \<open>
  The second argument of \<open>new Request\<close>. \<open>init_body\<close> is \<open>None\<close> when the property
  \<open>body\<close> is not set.
\<close>

record requestInit =
  init_headers :: headers
  init_method :: jsstring
  init_redirect :: jsstring
  init_body :: "body option"

text \<open>
  \<open>new Response(body, {status, statusText, headers})\<close>. The constructor raises
  \<open>RangeError\<close> for a status outside 200 to 599 and \<open>TypeError\<close> for a body with a
  null body status. A string body has the type \<open>text/plain;charset=UTF-8\<close>, which
  becomes the \<open>Content-Type\<close> header when the headers have none.
\<close>

definition Response_new :: "bodyInit \<Rightarrow> nat \<Rightarrow> jsstring \<Rightarrow> headers \<Rightarrow> exn + response" where
  "Response_new b status statusText h =
     (if status < 200 \<or> 599 < status then Inl RangeError
      else if b \<noteq> Body Null \<and> status \<in> set [101, 204, 205, 304] then Inl TypeError
      else
        (case b of
           Body s \<Rightarrow>
             Inr \<lparr>res_status = status, res_statusText = statusText, res_headers = h,
                  res_body = s\<rparr>
         | Text t \<Rightarrow>
             Inr \<lparr>res_status = status, res_statusText = statusText,
                  res_headers =
                    (if headers_get h (js ''Content-Type'') = None
                     then h @ [(js ''Content-Type'', js ''text/plain;charset=UTF-8'')]
                     else h),
                  res_body = Stream (map of_nat (UTF8Encode t))\<rparr>))"

text \<open>
  What the worker takes as given. From its platform: \<open>new URL(s).toString()\<close> and
  \<open>new URL(s).origin\<close> (\<open>None\<close> when \<open>new URL(s)\<close> raises \<open>TypeError\<close>),
  \<open>await fetch(new Request(url, init))\<close>, \<open>await response.text()\<close>, the text
  \<open>error.message\<close> or \<open>String(error)\<close> of an exception, and \<open>JSON.stringify\<close> of an
  object with string values. And the text that \<open>getRootHtml\<close> returns, a template
  literal without substitutions (lines 235 to 311), which is not written out here.
\<close>

record platform =
  URL_toString :: "jsstring \<Rightarrow> jsstring option"
  URL_origin :: "jsstring \<Rightarrow> jsstring option"
  fetch_request :: "jsstring \<Rightarrow> requestInit \<Rightarrow> exn + response"
  response_text :: "response \<Rightarrow> exn + jsstring"
  error_text :: "exn \<Rightarrow> jsstring"
  JSON_stringify :: "(jsstring \<times> jsstring) list \<Rightarrow> jsstring"
  getRootHtml :: jsstring

section \<open>The Auth Gate of \<open>_worker.js\<close>\<close>

text \<open>
  \<open>env.PASSWORD\<close> is \<open>None\<close> when the variable is not configured. The object
  \<open>{ok, reason}\<close> that \<open>checkAuth\<close> returns is \<open>AuthOk\<close> or \<open>AuthFail reason\<close>.
\<close>

record env =
  PASSWORD :: "jsstring option"

datatype authres = AuthOk | AuthFail jsstring

definition checkAuth :: "request \<Rightarrow> env \<Rightarrow> exn + authres" where
  "checkAuth request e =
     (if falsy (PASSWORD e) then Inr (AuthFail (js ''PASSWORD not set''))
      else
        let pwd = orEmpty (PASSWORD e);
            auth = orEmpty (headers_get (req_headers request) (js ''Authorization''))
        in
        (case btoa (js ''admin:'' @ pwd) of
           Inl x \<Rightarrow> Inl x
         | Inr b \<Rightarrow>
             let expected = js ''Basic '' @ b in
             if auth \<noteq> expected then Inr (AuthFail (js ''Auth required''))
             else Inr AuthOk))"

section \<open>The Target Resolver of \<open>handleRequest\<close>\<close>

text \<open>\<open>s.replace(/^\//, "")\<close>\<close>

definition stripLeadingSlash :: "jsstring \<Rightarrow> jsstring" where
  "stripLeadingSlash s = (case s of [] \<Rightarrow> [] | c # r \<Rightarrow> if c = 0x2F then r else s)"

definition ensureProtocol :: "jsstring \<Rightarrow> jsstring \<Rightarrow> jsstring" where
  "ensureProtocol url defaultProtocol =
     (if url = [] then defaultProtocol @ js ''//''
      else if startsWith url (js ''http://'') \<or> startsWith url (js ''https://'') then url
      else defaultProtocol @ js ''//'' @ url)"

text \<open>Lines 71 to 77 of \<open>handleRequest\<close>: the value of \<open>actualUrlStr\<close>.\<close>

definition actualUrlStr :: "URL \<Rightarrow> exn + jsstring" where
  "actualUrlStr url =
     (case decodeURIComponent (stripLeadingSlash (url_pathname url)) of
        Inl x \<Rightarrow> Inl x
      | Inr decoded \<Rightarrow> Inr (ensureProtocol decoded (url_protocol url) @ url_search url))"

section \<open>The HTML Rewriter: \<open>replaceRelativePaths\<close>\<close>

text \<open>
  The regular expression \<open>((href|src|action)=["'])/(?!/)\<close>, matched at the start of a
  string. A match returns the matched text and the two captures.
\<close>

record regexMatch =
  matched :: jsstring
  captures :: "jsstring list"

text \<open>The alternative \<open>(href|src|action)\<close>, tried from left to right.\<close>

definition matchAttribute :: "jsstring \<Rightarrow> jsstring option" where
  "matchAttribute s =
     (if startsWith s (js ''href'') then Some (js ''href'')
      else if startsWith s (js ''src'') then Some (js ''src'')
      else if startsWith s (js ''action'') then Some (js ''action'')
      else None)"

text \<open>The three names of the alternative.\<close>

definition attributeNames :: "jsstring list" where
  "attributeNames = [js ''href'', js ''src'', js ''action'']"

definition matchHere :: "jsstring \<Rightarrow> regexMatch option" where
  "matchHere s =
     (case matchAttribute s of
        None \<Rightarrow> None
      | Some attr \<Rightarrow>
          (case drop (length attr) s of
             eq # quote # slash # rest \<Rightarrow>
               if eq = 0x3D \<and> (quote = 0x22 \<or> quote = 0x27) \<and> slash = 0x2F
                  \<and> \<not> startsWith rest (js ''/'')
               then Some \<lparr>matched = attr @ [eq, quote, slash],
                          captures = [attr @ [eq, quote], attr]\<rparr>
               else None
           | _ \<Rightarrow> None))"

text \<open>
  A match begins with h, s or a: a string that is empty or begins with one of them.
\<close>

definition startsAttr :: "jsstring \<Rightarrow> bool" where
  "startsAttr s = (case s of [] \<Rightarrow> True | c # _ \<Rightarrow> c = 0x68 \<or> c = 0x73 \<or> c = 0x61)"

text \<open>
  \<open>GetSubstitution\<close>: the replacement text for one match, from the replacement
  template. \<open>preceding\<close> and \<open>following\<close> are the parts of the subject preceding and following the
  match. There are no named groups, so \<open>$<\<close> stands for itself.
\<close>

definition isDigit :: "16 word \<Rightarrow> bool" where
  "isDigit c = (0x30 \<le> c \<and> c \<le> 0x39)"

definition digitValue :: "16 word \<Rightarrow> nat" where
  "digitValue c = unat c - 0x30"

text \<open>
  A reference \<open>$n\<close> or \<open>$nn\<close>: \<open>d\<close> is the first digit and \<open>rest\<close> the template following it.
  The result is the text of the reference and the template that is left.
\<close>

definition captureReference ::
  "jsstring list \<Rightarrow> 16 word \<Rightarrow> jsstring \<Rightarrow> jsstring \<times> jsstring" where
  "captureReference caps d rest =
     (let two = (case rest of e # _ \<Rightarrow> isDigit e | [] \<Rightarrow> False);
          index2 = (case rest of e # _ \<Rightarrow> digitValue d * 10 + digitValue e | [] \<Rightarrow> 0);
          digitCount = (if two \<and> \<not> index2 > length caps then 2 else 1::nat);
          index = (if digitCount = 2 then index2 else digitValue d);
          ref = 0x24 # d # take (digitCount - 1) rest
      in (if 1 \<le> index \<and> index \<le> length caps then caps ! (index - 1) else ref,
          drop (digitCount - 1) rest))"

function GetSubstitution ::
  "regexMatch \<Rightarrow> jsstring \<Rightarrow> jsstring \<Rightarrow> jsstring \<Rightarrow> jsstring" where
  "GetSubstitution m preceding following [] = []"
| "GetSubstitution m preceding following (c # t) =
     (if c \<noteq> 0x24 then c # GetSubstitution m preceding following t
      else
        (case t of
           [] \<Rightarrow> [c]
         | d # t' \<Rightarrow>
             if d = 0x24 then 0x24 # GetSubstitution m preceding following t'
             else if d = 0x26 then matched m @ GetSubstitution m preceding following t'
             else if d = 0x60 then preceding @ GetSubstitution m preceding following t'
             else if d = 0x27 then following @ GetSubstitution m preceding following t'
             else if isDigit d then
               fst (captureReference (captures m) d t')
                 @ GetSubstitution m preceding following (snd (captureReference (captures m) d t'))
             else c # GetSubstitution m preceding following t))"
  by pat_completeness auto
termination
  by (relation "measure (\<lambda>(m, preceding, following, t). length t)")
     (auto simp: captureReference_def Let_def)

text \<open>
  \<open>text.replace(regex, template)\<close> for the global regular expression above: the
  matches are found from left to right, each search starting where the last match ended,
  and each is replaced by its substitution. \<open>preceding\<close> is the part of the subject
  already passed.
\<close>

function replaceMatches :: "jsstring \<Rightarrow> jsstring \<Rightarrow> jsstring \<Rightarrow> jsstring" where
  "replaceMatches template preceding [] = []"
| "replaceMatches template preceding (c # cs) =
     (case matchHere (c # cs) of
        None \<Rightarrow> c # replaceMatches template (preceding @ [c]) cs
      | Some m \<Rightarrow>
          GetSubstitution m preceding (drop (length (matched m)) (c # cs)) template
            @ replaceMatches template (preceding @ matched m)
                (drop (length (matched m) - 1) cs))"
  by pat_completeness auto
termination
  by (relation "measure (\<lambda>(template, preceding, s). length s)") auto

definition replaceRelativePaths ::
  "jsstring \<Rightarrow> jsstring \<Rightarrow> jsstring \<Rightarrow> jsstring \<Rightarrow> jsstring" where
  "replaceRelativePaths txt protocol host origin =
     replaceMatches (js ''$1'' @ protocol @ js ''//'' @ host @ js ''/'' @ origin @ js ''/'')
       [] txt"

text \<open>
  \<open>handleHtmlContent\<close>: the text of the response, with the origin of the target URL.
\<close>

definition handleHtmlContent ::
  "platform \<Rightarrow> response \<Rightarrow> jsstring \<Rightarrow> jsstring \<Rightarrow> jsstring \<Rightarrow> exn + jsstring" where
  "handleHtmlContent P response protocol host target =
     (case response_text P response of
        Inl x \<Rightarrow> Inl x
      | Inr originalText \<Rightarrow>
          (case URL_origin P target of
             None \<Rightarrow> Inl TypeError
           | Some origin \<Rightarrow> Inr (replaceRelativePaths originalText protocol host origin)))"

section \<open>The Header Filter and the Forwarder\<close>

text \<open>
  \<open>new Headers([...headers].filter(([name]) => filterFunc(name)))\<close>: the entries that
  iterating \<open>headers\<close> gives, those kept whose name \<open>filterFunc\<close> accepts, and a new
  \<open>Headers\<close> object made of them.
\<close>

definition filterHeaders :: "headers \<Rightarrow> (jsstring \<Rightarrow> bool) \<Rightarrow> headers" where
  "filterHeaders hs filterFunc =
     Headers_new (filter (\<lambda>(name, value). filterFunc name) (Headers_entries hs))"

text \<open>The predicate that \<open>handleRequest\<close> passes to \<open>filterHeaders\<close> (lines 80 to 83).\<close>

definition notCf :: "jsstring \<Rightarrow> bool" where
  "notCf name = (let n = toLowerCase (orEmpty (Some name)) in \<not> startsWith n (js ''cf-''))"

text \<open>
  Lines 80 to 95 of \<open>handleRequest\<close>: the object \<open>init\<close> given to \<open>new Request\<close>.
\<close>

definition forwardInit :: "request \<Rightarrow> requestInit" where
  "forwardInit request =
     (let newHeaders = filterHeaders (req_headers request) notCf;
          method = (if req_method request = [] then js ''GET'' else req_method request);
          init = \<lparr>init_headers = newHeaders, init_method = method,
                  init_redirect = js ''manual'', init_body = None\<rparr>
      in if method \<noteq> js ''GET'' \<and> method \<noteq> js ''HEAD''
         then init\<lparr>init_body := Some (req_body request)\<rparr>
         else init)"

section \<open>The Response Finisher and the Redirect Rewriter\<close>

definition setNoCacheHeaders :: "headers \<Rightarrow> headers" where
  "setNoCacheHeaders h =
     headers_set
       (headers_set (headers_set h (js ''Cache-Control'') (js ''no-store''))
          (js ''Pragma'') (js ''no-cache''))
       (js ''Expires'') (js ''0'')"

definition setCorsHeaders :: "headers \<Rightarrow> headers" where
  "setCorsHeaders h =
     headers_set
       (headers_set (headers_set h (js ''Access-Control-Allow-Origin'') (js ''*''))
          (js ''Access-Control-Allow-Methods'') (js ''GET, POST, PUT, DELETE, OPTIONS''))
       (js ''Access-Control-Allow-Headers'') (js ''*'')"

text \<open>
  The names of the headers that \<open>setNoCacheHeaders\<close> and \<open>setCorsHeaders\<close> set, and
  the headers of a header list whose names are not among given names.
\<close>

definition finisherNames :: "jsstring list" where
  "finisherNames =
     [js ''Cache-Control'', js ''Pragma'', js ''Expires'', js ''Access-Control-Allow-Origin'',
      js ''Access-Control-Allow-Methods'', js ''Access-Control-Allow-Headers'']"

definition otherHeaders :: "jsstring list \<Rightarrow> headers \<Rightarrow> headers" where
  "otherHeaders names h = filter (\<lambda>(n, v). \<not> list_ex (sameName n) names) h"

text \<open>
  The common end of \<open>handleRedirect\<close> and \<open>handleRequest\<close>: a new response, on whose
  headers \<open>setNoCacheHeaders\<close> and \<open>setCorsHeaders\<close> are called.
\<close>

definition finished :: "bodyInit \<Rightarrow> nat \<Rightarrow> jsstring \<Rightarrow> headers \<Rightarrow> exn + response" where
  "finished b status statusText h =
     (case Response_new b status statusText h of
        Inl x \<Rightarrow> Inl x
      | Inr r \<Rightarrow> Inr (r\<lparr>res_headers := setCorsHeaders (setNoCacheHeaders (res_headers r))\<rparr>))"

text \<open>
  The \<open>try\<close> and \<open>catch\<close> of \<open>handleRedirect\<close> (lines 163 to 173): the new value of
  \<open>Location\<close>. An exception of the \<open>catch\<close> block leaves the function.
\<close>

definition modifiedLocation :: "platform \<Rightarrow> jsstring \<Rightarrow> exn + jsstring" where
  "modifiedLocation P locationValue =
     (case (case URL_toString P locationValue of
              None \<Rightarrow> Inl TypeError
            | Some locUrl \<Rightarrow> encodeURIComponent locUrl) of
        Inr encoded \<Rightarrow> Inr (js ''/'' @ encoded)
      | Inl x \<Rightarrow> prefixed (js ''/'') (encodeURIComponent locationValue))"

definition handleRedirect :: "platform \<Rightarrow> response \<Rightarrow> exn + response" where
  "handleRedirect P response =
     (let hs = res_headers response;
          locationValue = orElse (headers_get hs (js ''location'')) (headers_get hs (js ''Location''))
      in if falsy locationValue then
           finished (Body (res_body response)) (res_status response) (res_statusText response) hs
         else
           (case modifiedLocation P (orEmpty locationValue) of
              Inl x \<Rightarrow> Inl x
            | Inr location \<Rightarrow>
                finished (Body (res_body response)) (res_status response)
                  (res_statusText response) (headers_set hs (js ''Location'') location)))"

section \<open>\<open>handleRequest\<close>\<close>

definition jsonResponse ::
  "platform \<Rightarrow> (jsstring \<times> jsstring) list \<Rightarrow> nat \<Rightarrow> exn + response" where
  "jsonResponse P data status =
     Response_new (Text (JSON_stringify P data)) status []
       [(js ''Content-Type'', js ''application/json; charset=utf-8''),
        (js ''Cache-Control'', js ''no-store'')]"

text \<open>The body of the \<open>try\<close> block of \<open>handleRequest\<close>.\<close>

definition handleRequest_try :: "platform \<Rightarrow> request \<Rightarrow> env \<Rightarrow> exn + response" where
  "handleRequest_try P request e =
     (case checkAuth request e of
        Inl x \<Rightarrow> Inl x
      | Inr (AuthFail reason) \<Rightarrow>
          if reason = js ''PASSWORD not set'' then
            Response_new
              (Text (js ''PASSWORD not set in Cloudflare Pages/Workers environment variables.''))
              500 [] [(js ''Content-Type'', js ''text/plain; charset=utf-8'')]
          else
            Response_new (Text (js ''Auth required'')) 401 []
              [(js ''WWW-Authenticate'', js ''Basic realm=\"Protected\"'')]
      | Inr AuthOk \<Rightarrow>
          let url = req_url request in
          if url_pathname url = js ''/'' then
            Response_new (Text (getRootHtml P)) 200 []
              [(js ''Content-Type'', js ''text/html; charset=utf-8''),
               (js ''Cache-Control'', js ''no-store'')]
          else
            (case actualUrlStr url of
               Inl x \<Rightarrow> Inl x
             | Inr target \<Rightarrow>
                 (case fetch_request P target (forwardInit request) of
                    Inl x \<Rightarrow> Inl x
                  | Inr response \<Rightarrow>
                      if res_status response \<in> set [301, 302, 303, 307, 308] then
                        handleRedirect P response
                      else
                        let ct = orEmpty (headers_get (res_headers response) (js ''Content-Type''))
                        in
                        (case (if includes_str ct (js ''text/html'') then
                                 map_sum id Text
                                   (handleHtmlContent P response (url_protocol url) (url_host url)
                                      target)
                               else Inr (Body (res_body response))) of
                           Inl x \<Rightarrow> Inl x
                         | Inr b \<Rightarrow>
                             finished b (res_status response) (res_statusText response)
                               (res_headers response)))))"

definition handleRequest :: "platform \<Rightarrow> request \<Rightarrow> env \<Rightarrow> exn + response" where
  "handleRequest P request e =
     (case handleRequest_try P request e of
        Inr r \<Rightarrow> Inr r
      | Inl error \<Rightarrow> jsonResponse P [(js ''error'', error_text P error)] 500)"

section \<open>The Pages worker (\<open>src/unnamed/part_000\<close>)\<close>

text \<open>
  The environment of the Pages worker has the binding \<open>ASSETS\<close> as well, whose
  \<open>fetch\<close> serves the static assets; it is \<open>None\<close> when the binding is missing.
\<close>

record pages_env = env +
  ASSETS :: "(request \<Rightarrow> exn + response) option"

text \<open>
  Lines 3 to 21 of \<open>fetch\<close>, the inline check: the response that it returns, or \<open>None\<close>
  when the request passes it.
\<close>

definition pages_gate :: "request \<Rightarrow> pages_env \<Rightarrow> exn + response option" where
  "pages_gate request e =
     (if falsy (PASSWORD e) then
        map_sum id Some
          (Response_new (Text (js ''PASSWORD not set in Cloudflare Pages environment.'')) 500 []
             [(js ''Content-Type'', js ''text/plain; charset=utf-8'')])
      else
        let pwd = orEmpty (PASSWORD e);
            auth = orEmpty (headers_get (req_headers request) (js ''Authorization''))
        in
        (case btoa (js ''admin:'' @ pwd) of
           Inl x \<Rightarrow> Inl x
         | Inr b \<Rightarrow>
             let expected = js ''Basic '' @ b in
             if auth \<noteq> expected then
               map_sum id Some
                 (Response_new (Text (js ''Auth required'')) 401 []
                    [(js ''WWW-Authenticate'', js ''Basic realm=\"Protected\"'')])
             else Inr None))"

text \<open>The whole of \<open>fetch\<close>: after the check, the request goes to the static assets.\<close>

definition pages_fetch :: "request \<Rightarrow> pages_env \<Rightarrow> exn + response" where
  "pages_fetch request e =
     (case pages_gate request e of
        Inl x \<Rightarrow> Inl x
      | Inr (Some r) \<Rightarrow> Inr r
      | Inr None \<Rightarrow>
          (case ASSETS e of
             Some assets_fetch \<Rightarrow> assets_fetch request
           | None \<Rightarrow> Response_new (Text (js ''ASSETS binding not found.'')) 500 [] []))"

section \<open>Concrete inputs\<close>

text \<open>A GET request for \<open>https://p.dev/example.com/a\<close> with the given headers.\<close>

definition example_request :: "headers \<Rightarrow> request" where
  "example_request hs =
     \<lparr>req_url = \<lparr>url_pathname = js ''/example.com/a'', url_search = [],
                  url_protocol = js ''https:'', url_host = js ''p.dev''\<rparr>,
      req_method = js ''GET'', req_headers = hs, req_body = Null\<rparr>"

text \<open>
  A platform for the examples. On the strings of the examples its \<open>new URL\<close> is as
  the platform's: the serialisation of \<open>https://example.com\<close> has the path \<open>/\<close>,
  \<open>https://example.com/new\<close> is its own serialisation, and a string without a scheme
  is not a URL. Every \<open>fetch\<close> fails.
\<close>

definition example_platform :: platform where
  "example_platform =
     \<lparr>URL_toString =
        (\<lambda>s. if s = js ''https://example.com'' then Some (js ''https://example.com/'')
             else if s = js ''https://example.com/new'' then Some s
             else None),
      URL_origin = (\<lambda>s. None),
      fetch_request = (\<lambda>u init. Inl (PlatformError (js ''fetch failed''))),
      response_text = (\<lambda>r. Inr []),
      error_text = (\<lambda>x. js ''error''),
      JSON_stringify = (\<lambda>d. concat (map snd d)),
      getRootHtml = js ''<html></html>''\<rparr>"

text \<open>A response with the status 302 and the given headers.\<close>

definition example_redirect :: "headers \<Rightarrow> response" where
  "example_redirect hs =
     \<lparr>res_status = 302, res_statusText = js ''Found'', res_headers = hs,
      res_body = Stream [0x68, 0x69]\<rparr>"

text \<open>
  A platform on which every \<open>fetch\<close> returns a page with the given HTML text, and the
  origin of every target is the given one.
\<close>

definition html_platform :: "jsstring \<Rightarrow> jsstring \<Rightarrow> platform" where
  "html_platform origin html =
     example_platform
       \<lparr>URL_origin := (\<lambda>s. Some origin),
        fetch_request :=
          (\<lambda>u init. Inr \<lparr>res_status = 200, res_statusText = js ''OK'',
                          res_headers = [(js ''content-type'', js ''text/html; charset=utf-8'')],
                          res_body = Stream []\<rparr>),
        response_text := (\<lambda>r. Inr html)\<rparr>"

section \<open>Base64 is injective\<close>

lemma b64alphabet_distinct: "distinct (b64alphabet @ [of_char CHR ''=''])"
  by (simp add: b64alphabet_def js_def)

lemma b64alphabet_length: "length b64alphabet = 64"
  by (simp add: b64alphabet_def js_def)

lemma b64char_inj: "a < 64 \<Longrightarrow> b < 64 \<Longrightarrow> b64char a = b64char b \<Longrightarrow> a = b"
  using b64alphabet_distinct b64alphabet_length
  by (simp add: b64char_def nth_eq_iff_index_eq)

lemma b64char_not_pad: "b64char n \<noteq> 61" "61 \<noteq> b64char n"
proof -
  have "b64char n \<in> set b64alphabet"
    by (simp add: b64char_def b64alphabet_length)
  with b64alphabet_distinct show "b64char n \<noteq> 61" "61 \<noteq> b64char n" by auto
qed

lemma sextets1: "(a::nat) < 256 \<Longrightarrow> a div 4 < 64 \<and> (a mod 4) * 16 < 64"
  by arith

lemma sextets2: "(a::nat) < 256 \<Longrightarrow> b < 256 \<Longrightarrow> (a mod 4) * 16 + b div 16 < 64 \<and> (b mod 16) * 4 < 64"
  by arith

lemma sextets3: "(b::nat) < 256 \<Longrightarrow> c < 256 \<Longrightarrow> (b mod 16) * 4 + c div 64 < 64 \<and> c mod 64 < 64"
  by arith

lemma split_eq:
  fixes x y x' y' k :: nat
  assumes "x * k + y = x' * k + y'" "y < k" "y' < k"
  shows "x = x' \<and> y = y'"
proof -
  have "(x * k + y) div k = x" "(x' * k + y') div k = x'"
    using assms(2,3) by simp_all
  with assms(1) have "x = x'" by metis
  with assms(1) show ?thesis by simp
qed

lemma div_mod_eq:
  fixes a a' k :: nat
  assumes "a div k = a' div k" "a mod k = a' mod k"
  shows "a = a'"
  by (metis assms div_mult_mod_eq)

lemma join1: "(a::nat) div 4 = a' div 4 \<Longrightarrow> (a mod 4) * 16 = (a' mod 4) * 16 \<Longrightarrow> a = a'"
  by (rule div_mod_eq[of a 4 a']) simp_all

lemma join2:
  assumes "(b::nat) < 256" "b' < 256"
    and "(a::nat) div 4 = a' div 4"
    and "(a mod 4) * 16 + b div 16 = (a' mod 4) * 16 + b' div 16"
    and "(b mod 16) * 4 = (b' mod 16) * 4"
  shows "a = a' \<and> b = b'"
proof -
  have "b div 16 < 16" "b' div 16 < 16" using assms(1,2) by simp_all
  with assms(4) have "a mod 4 = a' mod 4 \<and> b div 16 = b' div 16"
    by (rule split_eq)
  moreover have "b mod 16 = b' mod 16" using assms(5) by simp
  ultimately show ?thesis using assms(3) by (auto intro: div_mod_eq)
qed

lemma join3:
  assumes "(b::nat) < 256" "b' < 256" "(c::nat) < 256" "c' < 256"
    and "(a::nat) div 4 = a' div 4"
    and "(a mod 4) * 16 + b div 16 = (a' mod 4) * 16 + b' div 16"
    and "(b mod 16) * 4 + c div 64 = (b' mod 16) * 4 + c' div 64"
    and "c mod 64 = c' mod 64"
  shows "a = a' \<and> b = b' \<and> c = c'"
proof -
  have "b div 16 < 16" "b' div 16 < 16" using assms(1,2) by simp_all
  with assms(6) have 1: "a mod 4 = a' mod 4 \<and> b div 16 = b' div 16"
    by (rule split_eq)
  have "c div 64 < 4" "c' div 64 < 4" using assms(3,4) by simp_all
  with assms(7) have 2: "b mod 16 = b' mod 16 \<and> c div 64 = c' div 64"
    by (rule split_eq)
  show ?thesis using 1 2 assms(5,8) by (auto intro: div_mod_eq)
qed

lemma sextet_hi: "(a::nat) < 256 \<Longrightarrow> a div 4 < 64"
  by simp

lemma sextet_mid1: "(b::nat) < 256 \<Longrightarrow> (a mod 4) * 16 + b div 16 < 64"
proof -
  assume "b < 256"
  then have "b div 16 < 16" by simp
  moreover have "a mod 4 < 4" by simp
  ultimately show ?thesis by linarith
qed

lemma sextet_mid2: "(c::nat) < 256 \<Longrightarrow> (b mod 16) * 4 + c div 64 < 64"
proof -
  assume "c < 256"
  then have "c div 64 < 4" by simp
  moreover have "b mod 16 < 16" by simp
  ultimately show ?thesis by linarith
qed

lemma sextet_lo: "(c::nat) mod 64 < 64"
  by simp

lemma group1_inj:
  assumes "a < 256" "a' < 256"
    and "b64char (a div 4) = b64char (a' div 4)"
    and "b64char ((a mod 4) * 16) = b64char ((a' mod 4) * 16)"
  shows "a = a'"
proof -
  have "a div 4 = a' div 4"
    using assms(1,2) by (intro b64char_inj[OF _ _ assms(3)] sextet_hi)
  moreover have "(a mod 4) * 16 = (a' mod 4) * 16"
    using sextet_mid1[of 0 a] sextet_mid1[of 0 a'] by (intro b64char_inj[OF _ _ assms(4)]) simp_all
  ultimately show ?thesis by (rule join1)
qed

lemma group2_inj:
  assumes "a < 256" "a' < 256" "b < 256" "b' < 256"
    and "b64char (a div 4) = b64char (a' div 4)"
    and "b64char ((a mod 4) * 16 + b div 16) = b64char ((a' mod 4) * 16 + b' div 16)"
    and "b64char ((b mod 16) * 4) = b64char ((b' mod 16) * 4)"
  shows "a = a' \<and> b = b'"
proof -
  have "a div 4 = a' div 4"
    using assms(1,2) by (intro b64char_inj[OF _ _ assms(5)] sextet_hi)
  moreover have "(a mod 4) * 16 + b div 16 = (a' mod 4) * 16 + b' div 16"
    using assms(3,4) by (intro b64char_inj[OF _ _ assms(6)] sextet_mid1)
  moreover have "(b mod 16) * 4 = (b' mod 16) * 4"
    using sextet_mid2[of 0 b] sextet_mid2[of 0 b'] by (intro b64char_inj[OF _ _ assms(7)]) simp_all
  ultimately show ?thesis using assms(3,4) by (intro join2)
qed

lemma group3_inj:
  assumes "a < 256" "a' < 256" "b < 256" "b' < 256" "c < 256" "c' < 256"
    and "b64char (a div 4) = b64char (a' div 4)"
    and "b64char ((a mod 4) * 16 + b div 16) = b64char ((a' mod 4) * 16 + b' div 16)"
    and "b64char ((b mod 16) * 4 + c div 64) = b64char ((b' mod 16) * 4 + c' div 64)"
    and "b64char (c mod 64) = b64char (c' mod 64)"
  shows "a = a' \<and> b = b' \<and> c = c'"
proof -
  have "a div 4 = a' div 4"
    using assms(1,2) by (intro b64char_inj[OF _ _ assms(7)] sextet_hi)
  moreover have "(a mod 4) * 16 + b div 16 = (a' mod 4) * 16 + b' div 16"
    using assms(3,4) by (intro b64char_inj[OF _ _ assms(8)] sextet_mid1)
  moreover have "(b mod 16) * 4 + c div 64 = (b' mod 16) * 4 + c' div 64"
    using assms(5,6) by (intro b64char_inj[OF _ _ assms(9)] sextet_mid2)
  moreover have "c mod 64 = c' mod 64"
    by (intro b64char_inj[OF _ _ assms(10)] sextet_lo)
  ultimately show ?thesis using assms(3,4,5,6) by (intro join3)
qed

lemma base64_inj:
  "list_all (\<lambda>x. x < 256) xs \<Longrightarrow> list_all (\<lambda>x. x < 256) ys \<Longrightarrow> base64 xs = base64 ys \<Longrightarrow> xs = ys"
proof (induction xs arbitrary: ys rule: base64.induct)
  case 1
  then show ?case by (cases ys rule: base64.cases) auto
next
  case (2 a)
  show ?case
  proof (cases ys rule: base64.cases)
    case (2 a')
    with "2.prems" show ?thesis by (simp add: group1_inj)
  next
    case 1 with "2.prems" show ?thesis by simp
  next
    case (3 a' b') with "2.prems" show ?thesis by (simp add: b64char_not_pad)
  next
    case (4 a' b' c' bs') with "2.prems" show ?thesis by (simp add: b64char_not_pad)
  qed
next
  case (3 a b)
  show ?case
  proof (cases ys rule: base64.cases)
    case (3 a' b')
    with "3.prems" show ?thesis using group2_inj[of a a' b b'] by simp
  next
    case 1 with "3.prems" show ?thesis by simp
  next
    case (2 a') with "3.prems" show ?thesis by (simp add: b64char_not_pad)
  next
    case (4 a' b' c' bs') with "3.prems" show ?thesis by (simp add: b64char_not_pad)
  qed
next
  case (4 a b c bs)
  show ?case
  proof (cases ys rule: base64.cases)
    case (4 a' b' c' bs')
    with "4.prems" have "a = a' \<and> b = b' \<and> c = c'"
      using group3_inj[of a a' b b' c c'] by simp
    moreover have "bs = bs'" using "4.IH"[of bs'] "4.prems" 4 by simp
    ultimately show ?thesis using 4 by simp
  next
    case 1 with "4.prems" show ?thesis by simp
  next
    case (2 a') with "4.prems" show ?thesis by (simp add: b64char_not_pad)
  next
    case (3 a' b') with "4.prems" show ?thesis by (simp add: b64char_not_pad)
  qed
qed

lemma btoa_inj: "btoa s = Inr e \<Longrightarrow> btoa t = Inr e \<Longrightarrow> s = t"
proof -
  assume a: "btoa s = Inr e" "btoa t = Inr e"
  then have l: "latin1 s" "latin1 t" and e: "base64 (map unat s) = base64 (map unat t)"
    by (auto simp: btoa_def split: if_splits)
  have "list_all (\<lambda>x. x < 256) (map unat s)" "list_all (\<lambda>x. x < 256) (map unat t)"
    using l by (auto simp: latin1_def list_all_iff word_le_nat_alt)
  with e have "map unat s = map unat t" by (rule base64_inj[rotated 2])
  then show "s = t" by (simp add: inj_map_eq_map[OF inj_onI])
qed


lemma checkAuth_ok_iff:
  "checkAuth request \<lparr>PASSWORD = Some s\<rparr> = Inr AuthOk \<longleftrightarrow>
     s \<noteq> [] \<and> (\<exists>b. btoa (js ''admin:'' @ s) = Inr b \<and>
        orEmpty (headers_get (req_headers request) (js ''Authorization'')) = js ''Basic '' @ b)"
  by (auto simp: checkAuth_def Let_def falsy_def orEmpty_def split: sum.splits)

section \<open>The Auth Gate\<close>

text \<open>
  Where \<open>btoa\<close> encodes. For a non-empty secret \<open>s\<close> and a credential string \<open>c\<close> with
  the Base64 encoding \<open>e\<close> (\<open>btoa c\<close>, defined when \<open>c\<close> has no code unit above U+00FF), a
  request whose \<open>Authorization\<close> header is \<open>"Basic " + e\<close> is authorized by \<open>checkAuth\<close>
  if and only if \<open>c\<close> is \<open>"admin:" + s\<close>. The header is compared with the expected string
  by equality of strings: a request is authorized exactly when its header (the empty
  string when it is missing) is \<open>"Basic " + btoa("admin:" + s)\<close>, which there is only
  when \<open>btoa\<close> encodes \<open>"admin:" + s\<close>.
\<close>

theorem checkAuth_authorizes_iff:
  assumes "s \<noteq> []"
  shows "(btoa c = Inr e
           \<and> headers_get (req_headers request) (js ''Authorization'') = Some (js ''Basic '' @ e)
          \<longrightarrow> (checkAuth request \<lparr>PASSWORD = Some s\<rparr> = Inr AuthOk \<longleftrightarrow> c = js ''admin:'' @ s))
       \<and> (checkAuth request \<lparr>PASSWORD = Some s\<rparr> = Inr AuthOk \<longleftrightarrow>
            (\<exists>b. btoa (js ''admin:'' @ s) = Inr b \<and>
                 orEmpty (headers_get (req_headers request) (js ''Authorization''))
                   = js ''Basic '' @ b))"
proof (intro conjI impI)
  assume a: "btoa c = Inr e
    \<and> headers_get (req_headers request) (js ''Authorization'') = Some (js ''Basic '' @ e)"
  then have h: "orEmpty (headers_get (req_headers request) (js ''Authorization''))
       = js ''Basic '' @ e"
    by (simp add: orEmpty_def)
  show "checkAuth request \<lparr>PASSWORD = Some s\<rparr> = Inr AuthOk \<longleftrightarrow> c = js ''admin:'' @ s"
  proof
    assume "checkAuth request \<lparr>PASSWORD = Some s\<rparr> = Inr AuthOk"
    then obtain b where "btoa (js ''admin:'' @ s) = Inr b" "js ''Basic '' @ e = js ''Basic '' @ b"
      using h by (auto simp: checkAuth_ok_iff)
    then have "btoa (js ''admin:'' @ s) = Inr e" by simp
    with a show "c = js ''admin:'' @ s" by (auto intro: btoa_inj)
  next
    assume "c = js ''admin:'' @ s"
    with a h assms show "checkAuth request \<lparr>PASSWORD = Some s\<rparr> = Inr AuthOk"
      by (auto simp: checkAuth_ok_iff)
  qed
next
  show "checkAuth request \<lparr>PASSWORD = Some s\<rparr> = Inr AuthOk \<longleftrightarrow>
            (\<exists>b. btoa (js ''admin:'' @ s) = Inr b \<and>
                 orEmpty (headers_get (req_headers request) (js ''Authorization''))
                   = js ''Basic '' @ b)"
    using assms by (simp add: checkAuth_ok_iff)
qed

theorem checkAuth_authorizes_iff_witness:
  "js ''pw'' \<noteq> [] \<and> btoa (js ''admin:pw'') = Inr (js ''YWRtaW46cHc='')
   \<and> headers_get (req_headers (example_request
          [(js ''Host'', js ''x.dev''), (js ''authorization'', js ''Basic YWRtaW46cHc='')]))
        (js ''Authorization'') = Some (js ''Basic '' @ js ''YWRtaW46cHc='')
   \<and> checkAuth (example_request
          [(js ''Host'', js ''x.dev''), (js ''authorization'', js ''Basic YWRtaW46cHc='')])
        \<lparr>PASSWORD = Some (js ''pw'')\<rparr> = Inr AuthOk"
proof -
  let ?r = "example_request
          [(js ''Host'', js ''x.dev''), (js ''authorization'', js ''Basic YWRtaW46cHc='')]"
  have 1: "js ''pw'' \<noteq> []" by (simp add: js_def)
  have 2: "btoa (js ''admin:pw'') = Inr (js ''YWRtaW46cHc='')" by code_simp
  have 3: "headers_get (req_headers ?r) (js ''Authorization'')
      = Some (js ''Basic '' @ js ''YWRtaW46cHc='')" by code_simp
  have 4: "js ''admin:pw'' = js ''admin:'' @ js ''pw''" by (simp add: js_def)
  show ?thesis
    using checkAuth_authorizes_iff [OF 1, of "js ''admin:pw''" "js ''YWRtaW46cHc=''" ?r] 1 2 3 4
    by simp
qed

text \<open>
  Claim C1. It fails for a secret with a code unit above U+00FF, here the two
  characters U+5BC6 U+7801: \<open>btoa\<close> raises \<open>InvalidCharacterError\<close> on \<open>"admin:" + s\<close>, so
  that \<open>checkAuth\<close> returns for no request at all, whatever its \<open>Authorization\<close> header,
  and no request is authorized. Among them is the request with the credential
  \<open>"admin:" + s\<close> itself, in the header that a client sends for it: \<open>Basic\<close> and the
  Base64 encoding of the UTF-8 octets of the credential. \<open>handleRequest\<close> catches the
  exception and responds with the status 500.
\<close>

theorem checkAuth_raises_wide_secret:
  "[0x5BC6, 0x7801] \<noteq> ([] :: jsstring)
   \<and> checkAuth request \<lparr>PASSWORD = Some [0x5BC6, 0x7801]\<rparr> = Inl InvalidCharacterError
   \<and> checkAuth request \<lparr>PASSWORD = Some [0x5BC6, 0x7801]\<rparr> \<noteq> Inr AuthOk
   \<and> base64 (UTF8Encode (js ''admin:'' @ [0x5BC6, 0x7801])) = js ''YWRtaW465a+G56CB''
   \<and> checkAuth (example_request [(js ''Authorization'', js ''Basic YWRtaW465a+G56CB'')])
        \<lparr>PASSWORD = Some [0x5BC6, 0x7801]\<rparr> = Inl InvalidCharacterError
   \<and> map_sum id res_status
        (handleRequest example_platform
           (example_request [(js ''Authorization'', js ''Basic YWRtaW465a+G56CB'')])
           \<lparr>PASSWORD = Some [0x5BC6, 0x7801]\<rparr>) = Inr 500"
proof -
  have 1: "btoa (js ''admin:'' @ [0x5BC6, 0x7801]) = Inl InvalidCharacterError"
    by code_simp
  have 2: "checkAuth r \<lparr>PASSWORD = Some [0x5BC6, 0x7801]\<rparr> = Inl InvalidCharacterError" for r
    by (simp add: checkAuth_def falsy_def orEmpty_def Let_def 1)
  have u: "UTF8Encode (js ''admin:'' @ [0x5BC6, 0x7801])
      = [0x61, 0x64, 0x6D, 0x69, 0x6E, 0x3A, 0xE5, 0xAF, 0x86, 0xE7, 0xA0, 0x81]"
    by (simp add: js_def isLeadingSurrogate_def isTrailingSurrogate_def utf8_def)
  have b: "base64 [0x61, 0x64, 0x6D, 0x69, 0x6E, 0x3A, 0xE5, 0xAF, 0x86, 0xE7, 0xA0, 0x81]
      = js ''YWRtaW465a+G56CB''"
    by code_simp
  have 3: "base64 (UTF8Encode (js ''admin:'' @ [0x5BC6, 0x7801])) = js ''YWRtaW465a+G56CB''"
    unfolding u by (rule b)
  have 4: "map_sum id res_status
        (handleRequest example_platform
           (example_request [(js ''Authorization'', js ''Basic YWRtaW465a+G56CB'')])
           \<lparr>PASSWORD = Some [0x5BC6, 0x7801]\<rparr>) = Inr 500"
    by code_simp
  have 5: "checkAuth request \<lparr>PASSWORD = Some [0x5BC6, 0x7801]\<rparr> \<noteq> Inr AuthOk"
    unfolding 2 by simp
  have 6: "[0x5BC6, 0x7801] \<noteq> ([] :: jsstring)" by simp
  show ?thesis
    by (intro conjI 2 3 4 5 6)
qed

section \<open>Decoding undoes encoding\<close>

lemma hexValue_hexDigit_all: "\<forall>n \<in> set [0..<16]. hexValue (hexDigit n) = Some n"
  by code_simp

lemma hexValue_hexDigit: "n < 16 \<Longrightarrow> hexValue (hexDigit n) = Some n"
  using hexValue_hexDigit_all by simp

lemma parseHexOctet_percent:
  assumes "b < 256"
  shows "parseHexOctet (hexDigit (b div 16) # hexDigit (b mod 16) # r) = Some b"
proof -
  have "b div 16 < 16" using assms by simp
  then show ?thesis
    by (simp add: parseHexOctet_def hexValue_hexDigit)
qed

lemma length_percentOctets: "length (percentOctets bs) = 3 * length bs"
  by (induction bs) (simp_all add: percentOctets_def percentOctet_def)

lemma drop_percentOctets: "drop (3 * length bs) (percentOctets bs @ r) = r"
  by (simp add: length_percentOctets)

lemma percentOctets_Cons:
  "percentOctets (b # bs) @ r
      = 0x25 # hexDigit (b div 16) # hexDigit (b mod 16) # (percentOctets bs @ r)"
  by (simp add: percentOctets_def percentOctet_def)

lemma continuationOctets_percent:
  "list_all (\<lambda>b. b < 256) bs \<Longrightarrow>
     continuationOctets (length bs) (percentOctets bs @ r) = Some bs"
proof (induction bs)
  case Nil
  then show ?case by simp
next
  case (Cons b bs)
  then have b: "b < 256" and IH: "continuationOctets (length bs) (percentOctets bs @ r) = Some bs"
    by simp_all
  show ?case
    unfolding percentOctets_Cons using IH by (simp add: parseHexOctet_percent[OF b])
qed

lemma utf8_1: "cp < 0x80 \<Longrightarrow> utf8 cp = [cp]"
  by (simp add: utf8_def)

lemma mod_off: "(x::nat) < k \<Longrightarrow> (c * k + x) mod k = x"
  by simp

lemma utf8_2:
  assumes "0x80 \<le> cp" "cp < 0x800"
  shows "\<exists>a b. utf8 cp = [a, b] \<and> leadingOnes a = 2 \<and> a < 256 \<and> b < 256
            \<and> utf8CodePoint [a, b] = Some cp"
proof -
  define a where "a = 0xC0 + cp div 0x40"
  define b where "b = 0x80 + cp mod 0x40"
  have d: "cp div 0x40 < 32" using assms by simp
  have m: "cp mod 0x40 < 64" by simp
  have u: "utf8 cp = [a, b]" using assms by (simp add: utf8_def a_def b_def)
  have l: "leadingOnes a = 2" using d by (simp add: leadingOnes_def a_def)
  have bd: "a < 256" "b < 256" using d m by (simp_all add: a_def b_def)
  have "a mod 0x20 = cp div 0x40" using mod_off[OF d, of 6] by (simp add: a_def)
  moreover have "b mod 0x40 = cp mod 0x40" using mod_off[OF m, of 2] by (simp add: b_def)
  moreover have "isContinuation b" using m by (simp add: isContinuation_def b_def)
  ultimately have "utf8CodePoint [a, b] = Some cp" using assms(1)
    by (simp add: utf8CodePoint_def)
  with u l bd show ?thesis by blast
qed


lemma split3: "(cp::nat) = (cp div 0x1000) * 0x1000 + ((cp div 0x40) mod 0x40) * 0x40 + cp mod 0x40"
proof -
  have "cp div 0x1000 = (cp div 0x40) div 0x40" by (simp add: div_mult2_eq)
  then have "(cp div 0x1000) * 0x40 + (cp div 0x40) mod 0x40 = cp div 0x40"
    by simp
  then have "((cp div 0x1000) * 0x40 + (cp div 0x40) mod 0x40) * 0x40 + cp mod 0x40 = cp"
    by simp
  then show ?thesis by (simp add: algebra_simps)
qed

lemma split4:
  "(cp::nat) = (cp div 0x40000) * 0x40000 + ((cp div 0x1000) mod 0x40) * 0x1000
      + ((cp div 0x40) mod 0x40) * 0x40 + cp mod 0x40"
proof -
  have "cp div 0x40000 = (cp div 0x1000) div 0x40" by (simp add: div_mult2_eq)
  then have "(cp div 0x40000) * 0x40 + (cp div 0x1000) mod 0x40 = cp div 0x1000"
    by simp
  then have "((cp div 0x40000) * 0x40 + (cp div 0x1000) mod 0x40) * 0x1000
      + ((cp div 0x40) mod 0x40) * 0x40 + cp mod 0x40 = cp"
    using split3[of cp] by simp
  then show ?thesis by (simp add: algebra_simps)
qed

lemma utf8_3:
  assumes "0x800 \<le> cp" "cp < 0x10000" "\<not> (0xD800 \<le> cp \<and> cp \<le> 0xDFFF)"
  shows "\<exists>a b c. utf8 cp = [a, b, c] \<and> leadingOnes a = 3 \<and> a < 256 \<and> b < 256 \<and> c < 256
            \<and> utf8CodePoint [a, b, c] = Some cp"
proof -
  define a where "a = 0xE0 + cp div 0x1000"
  define b where "b = 0x80 + (cp div 0x40) mod 0x40"
  define c where "c = 0x80 + cp mod 0x40"
  have d: "cp div 0x1000 < 16" using assms by simp
  have m1: "(cp div 0x40) mod 0x40 < 64" by simp
  have m: "cp mod 0x40 < 64" by simp
  have u: "utf8 cp = [a, b, c]" using assms by (simp add: utf8_def a_def b_def c_def)
  have l: "leadingOnes a = 3" using d by (simp add: leadingOnes_def a_def)
  have bd: "a < 256" "b < 256" "c < 256" using d m1 m by (simp_all add: a_def b_def c_def)
  have 1: "a mod 0x10 = cp div 0x1000" using mod_off[OF d, of 14] by (simp add: a_def)
  have 2: "b mod 0x40 = (cp div 0x40) mod 0x40" using mod_off[OF m1, of 2] by (simp add: b_def)
  have 3: "c mod 0x40 = cp mod 0x40" using mod_off[OF m, of 2] by (simp add: c_def)
  have 4: "isContinuation b" "isContinuation c"
    using m1 m by (simp_all add: isContinuation_def b_def c_def)
  have "(a mod 0x10) * 0x1000 + (b mod 0x40) * 0x40 + c mod 0x40 = cp"
    unfolding 1 2 3 using split3[of cp] by simp
  then have "utf8CodePoint [a, b, c] = Some cp" using assms 4
    by (simp add: utf8CodePoint_def)
  with u l bd show ?thesis by blast
qed

lemma utf8_4:
  assumes "0x10000 \<le> cp" "cp \<le> 0x10FFFF"
  shows "\<exists>a b c d. utf8 cp = [a, b, c, d] \<and> leadingOnes a = 4
            \<and> a < 256 \<and> b < 256 \<and> c < 256 \<and> d < 256
            \<and> utf8CodePoint [a, b, c, d] = Some cp"
proof -
  define a where "a = 0xF0 + cp div 0x40000"
  define b where "b = 0x80 + (cp div 0x1000) mod 0x40"
  define c where "c = 0x80 + (cp div 0x40) mod 0x40"
  define d where "d = 0x80 + cp mod 0x40"
  have d0: "cp div 0x40000 < 8" using assms by simp
  have m2: "(cp div 0x1000) mod 0x40 < 64" by simp
  have m1: "(cp div 0x40) mod 0x40 < 64" by simp
  have m: "cp mod 0x40 < 64" by simp
  have u: "utf8 cp = [a, b, c, d]" using assms by (simp add: utf8_def a_def b_def c_def d_def)
  have l: "leadingOnes a = 4" using d0 by (simp add: leadingOnes_def a_def)
  have bd: "a < 256" "b < 256" "c < 256" "d < 256"
    using d0 m2 m1 m by (simp_all add: a_def b_def c_def d_def)
  have 1: "a mod 0x08 = cp div 0x40000" using mod_off[OF d0, of 30] by (simp add: a_def)
  have 2: "b mod 0x40 = (cp div 0x1000) mod 0x40" using mod_off[OF m2, of 2] by (simp add: b_def)
  have 3: "c mod 0x40 = (cp div 0x40) mod 0x40" using mod_off[OF m1, of 2] by (simp add: c_def)
  have 4: "d mod 0x40 = cp mod 0x40" using mod_off[OF m, of 2] by (simp add: d_def)
  have 5: "isContinuation b" "isContinuation c" "isContinuation d"
    using m2 m1 m by (simp_all add: isContinuation_def b_def c_def d_def)
  have "(a mod 0x08) * 0x40000 + (b mod 0x40) * 0x1000 + (c mod 0x40) * 0x40 + d mod 0x40 = cp"
    unfolding 1 2 3 4 using split4[of cp] by simp
  then have "utf8CodePoint [a, b, c, d] = Some cp" using assms 5
    by (simp add: utf8CodePoint_def)
  with u l bd show ?thesis by blast
qed

text \<open>A sequence of two to four octets, percent-encoded, is decoded to its code point.\<close>

lemma decode_sequence:
  assumes "leadingOnes a = Suc (length bs)" "bs \<noteq> []" "length bs \<le> 3"
    and "a < 256" "list_all (\<lambda>b. b < 256) bs"
    and "utf8CodePoint (a # bs) = Some cp"
  shows "decodeURIComponent (percentOctets (a # bs) @ r)
           = prefixed (UTF16EncodeCodePoint cp) (decodeURIComponent r)"
proof -
  have n: "\<not> 3 < length bs" "length bs \<noteq> 0"
    using assms(2,3) by simp_all
  show ?thesis
    unfolding percentOctets_Cons
    by (simp add: parseHexOctet_percent[OF assms(4)] Let_def assms(1,2) n
        continuationOctets_percent[OF assms(5)] assms(6) length_percentOctets)
qed

lemma decode_ascii:
  assumes "cp < 0x80"
  shows "decodeURIComponent (percentOctets [cp] @ r) = prefixed [of_nat cp] (decodeURIComponent r)"
proof -
  have "cp < 256" using assms by simp
  then show ?thesis
    unfolding percentOctets_Cons using assms
    by (simp add: parseHexOctet_percent Let_def leadingOnes_def percentOctets_def)
qed

lemma decode_utf8:
  assumes "cp \<le> 0x10FFFF" "\<not> (0xD800 \<le> cp \<and> cp \<le> 0xDFFF)"
  shows "decodeURIComponent (percentOctets (utf8 cp) @ r)
           = prefixed (UTF16EncodeCodePoint cp) (decodeURIComponent r)"
proof -
  consider "cp < 0x80" | "0x80 \<le> cp" "cp < 0x800" | "0x800 \<le> cp" "cp < 0x10000"
    | "0x10000 \<le> cp"
    by linarith
  then show ?thesis
  proof cases
    case 1
    then show ?thesis
      by (simp add: utf8_1 decode_ascii UTF16EncodeCodePoint_def)
  next
    case 2
    from utf8_2[OF 2] obtain a b where "utf8 cp = [a, b]" "leadingOnes a = 2" "a < 256" "b < 256"
      "utf8CodePoint [a, b] = Some cp" by blast
    then show ?thesis by (simp add: decode_sequence)
  next
    case 3
    from utf8_3[OF 3 assms(2)] obtain a b c where "utf8 cp = [a, b, c]" "leadingOnes a = 3"
      "a < 256" "b < 256" "c < 256" "utf8CodePoint [a, b, c] = Some cp" by blast
    then show ?thesis by (simp add: decode_sequence)
  next
    case 4
    from utf8_4[OF 4 assms(1)] obtain a b c d where "utf8 cp = [a, b, c, d]" "leadingOnes a = 4"
      "a < 256" "b < 256" "c < 256" "d < 256" "utf8CodePoint [a, b, c, d] = Some cp" by blast
    then show ?thesis by (simp add: decode_sequence)
  qed
qed


lemma unescaped_not_percent: "uriUnescaped c \<Longrightarrow> c \<noteq> 0x25"
  by (auto simp: uriUnescaped_def js_def)

lemma UTF16Encode_unit: "UTF16EncodeCodePoint (unat (c :: 16 word)) = [c]"
proof -
  have "unat c < 2 ^ 16" using unsigned_less[of c] by simp
  then show ?thesis by (simp add: UTF16EncodeCodePoint_def)
qed

lemma surrogate_pair:
  assumes "isLeadingSurrogate c" "isTrailingSurrogate d"
  shows "0x10000 \<le> UTF16SurrogatePairToCodePoint c d"
    and "UTF16SurrogatePairToCodePoint c d \<le> 0x10FFFF"
    and "UTF16EncodeCodePoint (UTF16SurrogatePairToCodePoint c d) = [c, d]"
proof -
  define x where "x = unat c - 0xD800"
  define y where "y = unat d - 0xDC00"
  have c: "0xD800 \<le> unat c" "unat c \<le> 0xDBFF" and d: "0xDC00 \<le> unat d" "unat d \<le> 0xDFFF"
    using assms by (simp_all add: isLeadingSurrogate_def isTrailingSurrogate_def word_le_nat_alt)
  have x: "x < 0x400" "x + 0xD800 = unat c" using c by (simp_all add: x_def)
  have y: "y < 0x400" "y + 0xDC00 = unat d" using d by (simp_all add: y_def)
  have cp: "UTF16SurrogatePairToCodePoint c d = x * 0x400 + y + 0x10000"
    by (simp add: UTF16SurrogatePairToCodePoint_def x_def y_def)
  show "0x10000 \<le> UTF16SurrogatePairToCodePoint c d" by (simp add: cp)
  show "UTF16SurrogatePairToCodePoint c d \<le> 0x10FFFF" using x(1) y(1) by (simp add: cp)
  have "(x * 0x400 + y) div 0x400 = x" "(x * 0x400 + y) mod 0x400 = y"
    using y(1) by simp_all
  then show "UTF16EncodeCodePoint (UTF16SurrogatePairToCodePoint c d) = [c, d]"
    using x(2) y(2) by (simp add: cp UTF16EncodeCodePoint_def)
qed

lemma prefixed_Inr: "prefixed p r = Inr s \<longleftrightarrow> (\<exists>t. r = Inr t \<and> s = p @ t)"
  by (auto simp: prefixed_def split: sum.splits)

lemma decode_append_unescaped:
  "c \<noteq> 0x25 \<Longrightarrow> decodeURIComponent (c # r) = prefixed [c] (decodeURIComponent r)"
  by simp

lemma decode_encode:
  "encodeURIComponent s = Inr e \<Longrightarrow> decodeURIComponent e = Inr s"
proof (induction s arbitrary: e rule: encodeURIComponent.induct)
  case 1
  then show ?case by simp
next
  case (2 c cs)
  show ?case
  proof (cases "uriUnescaped c")
    case True
    with "2.prems" obtain t where t: "encodeURIComponent cs = Inr t" "e = c # t"
      by (auto simp: prefixed_Inr)
    from "2.IH"(1)[OF True t(1)] show ?thesis
      using unescaped_not_percent[OF True] t(2) by (simp add: prefixed_def)
  next
    case False
    note nu = this
    show ?thesis
    proof (cases "isTrailingSurrogate c")
      case True
      with nu "2.prems" show ?thesis by simp
    next
      case False
      note nt = this
      show ?thesis
      proof (cases "isLeadingSurrogate c")
        case True
        with nu nt "2.prems" obtain d ds t where
          cs: "cs = d # ds" and d: "isTrailingSurrogate d"
          and t: "encodeURIComponent ds = Inr t"
          and e: "e = percentOctets (utf8 (UTF16SurrogatePairToCodePoint c d)) @ t"
          by (auto simp: prefixed_Inr split: list.splits if_splits)
        have IH: "decodeURIComponent t = Inr ds"
          using "2.IH"(2)[OF nu nt True cs d t] .
        have "\<not> (0xD800 \<le> UTF16SurrogatePairToCodePoint c d
                \<and> UTF16SurrogatePairToCodePoint c d \<le> 0xDFFF)"
          using surrogate_pair(1)[OF True d] by simp
        from decode_utf8[OF surrogate_pair(2)[OF True d] this, of t]
        show ?thesis
          by (simp add: e IH surrogate_pair(3)[OF True d] prefixed_def cs)
      next
        case False
        with nu nt "2.prems" obtain t where t: "encodeURIComponent cs = Inr t"
          and e: "e = percentOctets (utf8 (unat c)) @ t"
          by (auto simp: prefixed_Inr)
        have IH: "decodeURIComponent t = Inr cs"
          using "2.IH"(3)[OF nu nt False t] .
        have "unat c < 2 ^ 16" using unsigned_less[of c] by simp
        then have 1: "unat c \<le> 0x10FFFF" by simp
        have 2: "\<not> (0xD800 \<le> unat c \<and> unat c \<le> 0xDFFF)"
          using nt False
          by (auto simp: isLeadingSurrogate_def isTrailingSurrogate_def word_le_nat_alt)
        from decode_utf8[OF 1 2, of t] show ?thesis
          by (simp add: e IH UTF16Encode_unit prefixed_def)
      qed
    qed
  qed
qed

section \<open>The Target Resolver\<close>

lemma unescaped_not_surrogate:
  "uriUnescaped c \<Longrightarrow> \<not> isLeadingSurrogate c \<and> \<not> isTrailingSurrogate c"
  by (auto simp: uriUnescaped_def js_def isLeadingSurrogate_def isTrailingSurrogate_def)

lemma lead_not_trail: "isLeadingSurrogate c \<Longrightarrow> \<not> isTrailingSurrogate c"
  by (auto simp: isLeadingSurrogate_def isTrailingSurrogate_def word_le_nat_alt)

lemma encode_total: "isWellFormed s \<Longrightarrow> \<exists>e. encodeURIComponent s = Inr e"
proof (induction s rule: isWellFormed.induct)
  case 1
  then show ?case by simp
next
  case (2 c)
  then show ?case by (simp add: prefixed_def)
next
  case (3 c d cs)
  show ?case
  proof (cases "isLeadingSurrogate c")
    case True
    with "3.prems" have d: "isTrailingSurrogate d" and w: "isWellFormed cs" by simp_all
    from "3.IH"(1)[OF True] d w obtain e where "encodeURIComponent cs = Inr e" by auto
    then show ?thesis
      using True d unescaped_not_surrogate[of c] lead_not_trail[OF True]
      by (auto simp: prefixed_def)
  next
    case False
    with "3.prems" have t: "\<not> isTrailingSurrogate c" and w: "isWellFormed (d # cs)" by simp_all
    from "3.IH"(2)[OF False] t w obtain e where e: "encodeURIComponent (d # cs) = Inr e" by auto
    show ?thesis
      using False t e by (auto simp: prefixed_def simp del: encodeURIComponent.simps(2)
          simp add: encodeURIComponent.simps(2)[of c])
  qed
qed

lemma startsWith_append: "startsWith (p @ s) p"
  by (simp add: startsWith_def)

lemma startsWith_iff: "startsWith s p \<longleftrightarrow> (\<exists>t. s = p @ t)"
  by (metis append_take_drop_id startsWith_append startsWith_def)

lemma encode_unescaped_prefix:
  "list_all uriUnescaped p \<Longrightarrow> encodeURIComponent (p @ s) = prefixed p (encodeURIComponent s)"
  by (induction p) (auto simp: prefixed_def split: sum.splits)

lemma encode_keeps_first:
  assumes "encodeURIComponent (c # s) = Inr e" "uriUnescaped c"
  shows "\<exists>t. e = c # t"
  using assms by (auto simp: prefixed_Inr)

text \<open>
  Claim C2, as amended. Let \<open>u\<close> be an absolute URL that is written with its scheme in
  lower case: a well-formed string that starts with \<open>http://\<close> or \<open>https://\<close>, the test
  of \<open>ensureProtocol\<close>. Then \<open>encodeURIComponent\<close> of \<open>u\<close> is defined, and for a request
  whose path is \<open>/\<close> followed by that encoding (or the encoding alone) and whose query
  string is empty, \<open>actualUrlStr\<close> is \<open>u\<close> itself, whatever the scheme of the request:
  decoding undoes the encoding, no scheme is prepended and nothing is appended.
\<close>

theorem resolve_encoded_url:
  assumes "startsWith u (js ''http://'') \<or> startsWith u (js ''https://'')"
    and "isWellFormed u"
  shows "\<exists>e. encodeURIComponent u = Inr e
          \<and> actualUrlStr \<lparr>url_pathname = js ''/'' @ e, url_search = [],
                url_protocol = scheme, url_host = h\<rparr> = Inr u
          \<and> actualUrlStr \<lparr>url_pathname = e, url_search = [],
                url_protocol = scheme, url_host = h\<rparr> = Inr u"
proof -
  from encode_total[OF assms(2)] obtain e where e: "encodeURIComponent u = Inr e" by blast
  have d: "decodeURIComponent e = Inr u" using e by (rule decode_encode)
  from assms(1) obtain t where "u = 0x68 # t"
    by (auto simp: startsWith_iff js_def)
  moreover have "uriUnescaped 0x68" by (simp add: uriUnescaped_def js_def)
  ultimately obtain t' where t': "e = 0x68 # t'" using e encode_keeps_first by blast
  have ne: "u \<noteq> []" using \<open>u = 0x68 # t\<close> by simp
  have 1: "stripLeadingSlash (js ''/'' @ e) = e" by (simp add: stripLeadingSlash_def js_def)
  have 2: "stripLeadingSlash e = e" by (simp add: stripLeadingSlash_def t')
  have 3: "ensureProtocol u scheme = u" using assms(1) ne by (auto simp: ensureProtocol_def)
  show ?thesis using e d by (simp add: actualUrlStr_def 1 2 3)
qed

theorem resolve_encoded_url_witness:
  "(startsWith (js ''https://example.com/a b?q=1'') (js ''http://'')
      \<or> startsWith (js ''https://example.com/a b?q=1'') (js ''https://''))
   \<and> isWellFormed (js ''https://example.com/a b?q=1'')
   \<and> encodeURIComponent (js ''https://example.com/a b?q=1'')
        = Inr (js ''https%3A%2F%2Fexample.com%2Fa%20b%3Fq%3D1'')
   \<and> actualUrlStr \<lparr>url_pathname = js ''/https%3A%2F%2Fexample.com%2Fa%20b%3Fq%3D1'',
         url_search = [], url_protocol = js ''http:'', url_host = js ''p.dev''\<rparr>
        = Inr (js ''https://example.com/a b?q=1'')"
proof -
  let ?u = "js ''https://example.com/a b?q=1''"
  have 1: "startsWith ?u (js ''http://'') \<or> startsWith ?u (js ''https://'')" by code_simp
  have 2: "isWellFormed ?u" by code_simp
  have 3: "encodeURIComponent ?u = Inr (js ''https%3A%2F%2Fexample.com%2Fa%20b%3Fq%3D1'')"
    by code_simp
  have 4: "js ''/'' @ js ''https%3A%2F%2Fexample.com%2Fa%20b%3Fq%3D1''
      = js ''/https%3A%2F%2Fexample.com%2Fa%20b%3Fq%3D1''" by (simp add: js_def)
  from resolve_encoded_url[OF 1 2, of "js ''http:''" "js ''p.dev''"] 3 4
  have "actualUrlStr \<lparr>url_pathname = js ''/https%3A%2F%2Fexample.com%2Fa%20b%3Fq%3D1'',
         url_search = [], url_protocol = js ''http:'', url_host = js ''p.dev''\<rparr> = Inr ?u"
    by auto
  with 1 2 3 show ?thesis by blast
qed

text \<open>
  Claim C2 as stated fails: the scheme of a URL is read without regard to case, so
  \<open>HTTP://example.com/a\<close> is an absolute URL with the scheme http; \<open>ensureProtocol\<close>
  looks for \<open>http://\<close> in lower case, does not find it, and prepends the scheme of the
  request.
\<close>

theorem resolve_encoded_url_counterexample:
  "toLowerCase (take 7 (js ''HTTP://example.com/a'')) = js ''http://''
   \<and> isWellFormed (js ''HTTP://example.com/a'')
   \<and> encodeURIComponent (js ''HTTP://example.com/a'') = Inr (js ''HTTP%3A%2F%2Fexample.com%2Fa'')
   \<and> actualUrlStr \<lparr>url_pathname = js ''/HTTP%3A%2F%2Fexample.com%2Fa'', url_search = [],
         url_protocol = js ''https:'', url_host = js ''p.dev''\<rparr>
        = Inr (js ''https://HTTP://example.com/a'')
   \<and> js ''https://HTTP://example.com/a'' \<noteq> js ''HTTP://example.com/a''"
  by code_simp

text \<open>
  Claim C6. When the path of a request, without its leading slash, decodes to a string
  \<open>decoded\<close>, the target is \<open>decoded\<close> itself if it starts with \<open>http://\<close> or
  \<open>https://\<close>, and the scheme of the request, \<open>//\<close> and \<open>decoded\<close> otherwise; in both
  cases the query string of the request (\<open>url.search\<close>, with its question mark) follows,
  as it is: it is neither decoded nor encoded. The path \<open>/example.com/a\<close> of an https
  request gives \<open>https://example.com/a\<close>, and so does \<open>example.com/a\<close>.
\<close>

theorem resolve_prepends_scheme_appends_query:
  assumes "decodeURIComponent (stripLeadingSlash (url_pathname url)) = Inr decoded"
  shows "actualUrlStr url =
           Inr ((if startsWith decoded (js ''http://'') \<or> startsWith decoded (js ''https://'')
                 then decoded else url_protocol url @ js ''//'' @ decoded) @ url_search url)
         \<and> actualUrlStr \<lparr>url_pathname = js ''/example.com/a'', url_search = [],
               url_protocol = js ''https:'', url_host = h\<rparr> = Inr (js ''https://example.com/a'')
         \<and> actualUrlStr \<lparr>url_pathname = js ''example.com/a'', url_search = [],
               url_protocol = js ''https:'', url_host = h\<rparr> = Inr (js ''https://example.com/a'')"
proof (intro conjI)
  show "actualUrlStr url =
           Inr ((if startsWith decoded (js ''http://'') \<or> startsWith decoded (js ''https://'')
                 then decoded else url_protocol url @ js ''//'' @ decoded) @ url_search url)"
    using assms by (auto simp: actualUrlStr_def ensureProtocol_def startsWith_def js_def)
  have "decodeURIComponent (js ''example.com/a'') = Inr (js ''example.com/a'')" by code_simp
  moreover have "stripLeadingSlash (js ''/example.com/a'') = js ''example.com/a''" by code_simp
  moreover have "ensureProtocol (js ''example.com/a'') (js ''https:'') = js ''https://example.com/a''"
    by code_simp
  moreover have "stripLeadingSlash (js ''example.com/a'') = js ''example.com/a''" by code_simp
  ultimately show "actualUrlStr \<lparr>url_pathname = js ''/example.com/a'', url_search = [],
               url_protocol = js ''https:'', url_host = h\<rparr> = Inr (js ''https://example.com/a'')"
    and "actualUrlStr \<lparr>url_pathname = js ''example.com/a'', url_search = [],
               url_protocol = js ''https:'', url_host = h\<rparr> = Inr (js ''https://example.com/a'')"
    by (simp_all add: actualUrlStr_def)
qed

theorem resolve_prepends_scheme_appends_query_witness:
  "decodeURIComponent (stripLeadingSlash (js ''/example.com%2Fa%20b'')) = Inr (js ''example.com/a b'')
   \<and> actualUrlStr \<lparr>url_pathname = js ''/example.com%2Fa%20b'', url_search = js ''?q=%41%2F&r=a+b'',
         url_protocol = js ''https:'', url_host = js ''p.dev''\<rparr>
       = Inr (js ''https://example.com/a b?q=%41%2F&r=a+b'')"
proof -
  let ?url = "\<lparr>url_pathname = js ''/example.com%2Fa%20b'', url_search = js ''?q=%41%2F&r=a+b'',
         url_protocol = js ''https:'', url_host = js ''p.dev''\<rparr>"
  have 1: "decodeURIComponent (stripLeadingSlash (url_pathname ?url)) = Inr (js ''example.com/a b'')"
    by code_simp
  have 2: "(if startsWith (js ''example.com/a b'') (js ''http://'')
               \<or> startsWith (js ''example.com/a b'') (js ''https://'')
            then js ''example.com/a b'' else url_protocol ?url @ js ''//'' @ js ''example.com/a b'')
           @ url_search ?url = js ''https://example.com/a b?q=%41%2F&r=a+b''"
    by code_simp
  from resolve_prepends_scheme_appends_query[OF 1, THEN conjunct1] 1 show ?thesis
    unfolding 2 by simp
qed

section \<open>The Header Filter\<close>

text \<open>Names in lower case, and the values of a name.\<close>

lemma lowerUnit_idem: "lowerUnit (lowerUnit c) = lowerUnit c"
  unfolding lowerUnit_def by unat_arith

lemma byteLower_idem: "byteLower (byteLower s) = byteLower s"
  by (simp add: byteLower_def lowerUnit_idem)

lemma toLowerCase_byteLower: "toLowerCase s = byteLower s"
  by (simp add: toLowerCase_def byteLower_def lowerUnit_def)

lemma sameName_byteLower: "sameName (byteLower n) k \<longleftrightarrow> sameName n k"
  "sameName n (byteLower k) \<longleftrightarrow> sameName n k"
  by (simp_all add: sameName_def byteLower_idem)

lemma headerValues_cong: "sameName k k' \<Longrightarrow> headerValues h k = headerValues h k'"
  by (simp add: headerValues_def sameName_def)

lemma headers_get_values:
  "headers_get h k = (if headerValues h k = [] then None else Some (joinValues (headerValues h k)))"
  by (simp add: headers_get_def headerValues_def split: list.splits)

lemma names_sorted: "sorted (sortedLowercaseNames h)"
  and names_distinct: "distinct (sortedLowercaseNames h)"
  and names_set: "set (sortedLowercaseNames h) = (\<lambda>(n, v). byteLower n) ` set h"
  by (simp_all add: sortedLowercaseNames_def)

lemma names_lower: "n \<in> set (sortedLowercaseNames h) \<Longrightarrow> byteLower n = n"
  by (auto simp: names_set byteLower_idem)

lemma names_values: "n \<in> set (sortedLowercaseNames h) \<longleftrightarrow> byteLower n = n \<and> headerValues h n \<noteq> []"
proof -
  have "headerValues h n \<noteq> [] \<longleftrightarrow> (\<exists>(m, v) \<in> set h. sameName m n)"
    by (auto simp: headerValues_def filter_empty_conv)
  then show ?thesis
    by (auto simp: names_set sameName_def byteLower_idem)
qed

lemma entriesOfName_fst: "e \<in> set (entriesOfName h n) \<Longrightarrow> fst e = n"
  by (auto simp: entriesOfName_def split: if_splits)

lemma entriesOfName_nonempty: "headerValues h n \<noteq> [] \<Longrightarrow> entriesOfName h n \<noteq> []"
  by (auto simp: entriesOfName_def)

lemma joinValues_singleton: "joinValues [v] = v"
  by simp

lemma entriesOfName_values:
  "joinValues (map snd (entriesOfName h n)) = joinValues (headerValues h n)"
  by (simp add: entriesOfName_def comp_def)

text \<open>Filtering by name a list that is put together from groups of one name each.\<close>

lemma filter_groups:
  assumes "\<And>n e. n \<in> set ns \<Longrightarrow> e \<in> set (g n) \<Longrightarrow> fst e = n"
  shows "filter (\<lambda>(m, v). Q m) (concat (map g ns)) = concat (map g (filter Q ns))"
  using assms
proof (induction ns)
  case Nil
  then show ?case by simp
next
  case (Cons n ns)
  have "\<And>e. e \<in> set (g n) \<Longrightarrow> fst e = n" using Cons.prems[of n] by simp
  then have "filter (\<lambda>(m, v). Q m) (g n) = (if Q n then g n else [])"
    by (induction "g n") (auto simp: filter_empty_conv filter_id_conv case_prod_unfold)
  then show ?case using Cons by simp
qed

lemma filter_eq_distinct:
  "distinct ns \<Longrightarrow> filter (\<lambda>n. n = x) ns = (if x \<in> set ns then [x] else [])"
  by (induction ns) auto

lemma filter_sameName_names:
  assumes "distinct ns" "\<And>n. n \<in> set ns \<Longrightarrow> byteLower n = n"
  shows "filter (\<lambda>n. sameName n k) ns = (if byteLower k \<in> set ns then [byteLower k] else [])"
proof -
  have "filter (\<lambda>n. sameName n k) ns = filter (\<lambda>n. n = byteLower k) ns"
    using assms(2) by (intro filter_cong) (auto simp: sameName_def)
  then show ?thesis by (simp add: filter_eq_distinct[OF assms(1)])
qed

lemma entries_of_name:
  "filter (\<lambda>(m, v). sameName m k) (Headers_entries h)
     = (if headerValues h k = [] then [] else entriesOfName h (byteLower k))"
proof -
  have v: "headerValues h (byteLower k) = headerValues h k"
    by (rule headerValues_cong) (simp add: sameName_def byteLower_idem)
  have "filter (\<lambda>(m, v). sameName m k) (Headers_entries h)
      = concat (map (entriesOfName h) (filter (\<lambda>n. sameName n k) (sortedLowercaseNames h)))"
    unfolding Headers_entries_def by (rule filter_groups) (rule entriesOfName_fst)
  also have "\<dots> = (if byteLower k \<in> set (sortedLowercaseNames h)
      then entriesOfName h (byteLower k) else [])"
    by (simp add: filter_sameName_names[OF names_distinct names_lower])
  finally show ?thesis by (simp add: names_values byteLower_idem v)
qed

lemma headers_get_entries: "headers_get (Headers_entries h) k = headers_get h k"
proof -
  have v: "headerValues h (byteLower k) = headerValues h k"
    by (rule headerValues_cong) (simp add: sameName_def byteLower_idem)
  have "headerValues (Headers_entries h) k
      = (if headerValues h k = [] then [] else map snd (entriesOfName h (byteLower k)))"
    by (simp add: headerValues_def[of "Headers_entries h"] entries_of_name)
  moreover have "map snd (entriesOfName h (byteLower k)) \<noteq> []" if "headerValues h k \<noteq> []"
    using that entriesOfName_nonempty[of h "byteLower k"] by (simp add: v)
  ultimately show ?thesis
    by (simp add: headers_get_values entriesOfName_values v)
qed


text \<open>A filtered list of entries is what iterating it gives.\<close>

lemma entries_filtered:
  "Headers_entries (filter (\<lambda>(n, v). Q n) (Headers_entries h))
     = filter (\<lambda>(n, v). Q n) (Headers_entries h)"
proof -
  define ns where "ns = filter Q (sortedLowercaseNames h)"
  define l where "l = filter (\<lambda>(n, v). Q n) (Headers_entries h)"
  have l: "l = concat (map (entriesOfName h) ns)"
    unfolding l_def ns_def Headers_entries_def
    by (rule filter_groups) (rule entriesOfName_fst)
  have ns: "sorted ns" "distinct ns" "\<And>n. n \<in> set ns \<Longrightarrow> byteLower n = n"
    "\<And>n. n \<in> set ns \<Longrightarrow> headerValues h n \<noteq> []"
    using names_sorted[of h] names_distinct[of h] names_values[of _ h]
    by (auto simp: ns_def sorted_wrt_filter)
  have "set (map (\<lambda>(n, v). byteLower n) l) = set ns"
  proof
    show "set (map (\<lambda>(n, v). byteLower n) l) \<subseteq> set ns"
      using ns(3) by (auto simp: l dest!: entriesOfName_fst)
    show "set ns \<subseteq> set (map (\<lambda>(n, v). byteLower n) l)"
    proof
      fix n assume n: "n \<in> set ns"
      have "entriesOfName h n \<noteq> []"
        using ns(4)[OF n] by (rule entriesOfName_nonempty)
      then have "hd (entriesOfName h n) \<in> set (entriesOfName h n)" by (rule hd_in_set)
      then obtain e where e: "e \<in> set (entriesOfName h n)" ..
      then have "fst e = n" by (rule entriesOfName_fst)
      then have "(\<lambda>(n, v). byteLower n) e = n" using ns(3)[OF n] by (simp add: case_prod_unfold)
      moreover have "e \<in> set l" using e n by (auto simp: l)
      ultimately show "n \<in> set (map (\<lambda>(n, v). byteLower n) l)" by force
    qed
  qed
  then have names: "sortedLowercaseNames l = ns"
    using ns(1,2)
    by (intro sorted_distinct_set_unique) (simp_all add: sortedLowercaseNames_def)
  have same: "entriesOfName l n = entriesOfName h n" if n: "n \<in> set ns" for n
  proof -
    have "filter (\<lambda>(m, v). sameName m n) l
        = concat (map (entriesOfName h) (filter (\<lambda>m. sameName m n) ns))"
      unfolding l by (rule filter_groups) (rule entriesOfName_fst)
    also have "\<dots> = entriesOfName h n"
      using n ns(3)[OF n] by (simp add: filter_sameName_names[OF ns(2,3)])
    finally have "headerValues l n = map snd (entriesOfName h n)"
      by (simp add: headerValues_def[of l])
    then have "headerValues l n
        = (if n = js ''set-cookie'' then headerValues h n else [joinValues (headerValues h n)])"
      by (simp add: entriesOfName_def[of h] comp_def)
    then show ?thesis
      by (cases "n = js ''set-cookie''") (simp_all add: entriesOfName_def)
  qed
  have "Headers_entries l = concat (map (entriesOfName l) ns)"
    by (simp add: Headers_entries_def names)
  also have "\<dots> = concat (map (entriesOfName h) ns)"
    using same by (simp cong: map_cong)
  finally show ?thesis by (simp add: l l_def[symmetric])
qed

lemma notCf_lower: "notCf n \<longleftrightarrow> \<not> startsWith (toLowerCase n) (js ''cf-'')"
  by (simp add: notCf_def orEmpty_def)

lemma notCf_pred:
  "(\<lambda>(name, value). notCf name) = (\<lambda>e. \<not> startsWith (toLowerCase (fst e)) (js ''cf-''))"
  by (auto simp: notCf_lower fun_eq_iff)

lemma headers_get_filterHeaders:
  "headers_get (filterHeaders h notCf) k
     = (if startsWith (toLowerCase k) (js ''cf-'') then None else headers_get h k)"
proof -
  have v: "headerValues h (byteLower k) = headerValues h k"
    by (rule headerValues_cong) (simp add: sameName_def byteLower_idem)
  have c: "notCf (byteLower k) \<longleftrightarrow> \<not> startsWith (toLowerCase k) (js ''cf-'')"
    by (simp add: notCf_lower toLowerCase_byteLower byteLower_idem)
  have "filter (\<lambda>(m, v). sameName m k) (filterHeaders h notCf)
      = filter (\<lambda>(n, v). notCf n) (filter (\<lambda>(m, v). sameName m k) (Headers_entries h))"
    by (auto simp: filterHeaders_def Headers_new_def intro: filter_cong)
  also have "\<dots> = (if headerValues h k = [] \<or> \<not> notCf (byteLower k) then []
      else entriesOfName h (byteLower k))"
  proof -
    have "filter (\<lambda>(n, v). notCf n) (entriesOfName h (byteLower k))
        = (if notCf (byteLower k) then entriesOfName h (byteLower k) else [])"
      using entriesOfName_fst[of _ h "byteLower k"]
      by (auto simp: filter_empty_conv filter_id_conv case_prod_unfold)
    then show ?thesis by (simp add: entries_of_name)
  qed
  finally have "headerValues (filterHeaders h notCf) k
      = (if headerValues h k = [] \<or> \<not> notCf (byteLower k) then []
         else map snd (entriesOfName h (byteLower k)))"
    by (simp add: headerValues_def[of "filterHeaders h notCf"])
  moreover have "map snd (entriesOfName h (byteLower k)) \<noteq> []" if "headerValues h k \<noteq> []"
    using that entriesOfName_nonempty[of h "byteLower k"] by (simp add: v)
  ultimately show ?thesis
    by (simp add: headers_get_values entriesOfName_values v c)
qed




section \<open>The Forwarder\<close>

lemma handleRequest_try_fetch_cong:
  assumes "\<And>u. fetch_request P' u (forwardInit request) = fetch_request P u (forwardInit request)"
    and "P' = P\<lparr>fetch_request := f\<rparr>"
  shows "handleRequest_try P' request e = handleRequest_try P request e"
  using assms
  by (auto simp: handleRequest_try_def handleRedirect_def modifiedLocation_def
        handleHtmlContent_def Let_def
      split: sum.splits authres.splits)



section \<open>Reading and setting headers\<close>

lemma sameName_refl: "sameName n n"
  by (simp add: sameName_def)

lemma sameName_sym: "sameName a b \<Longrightarrow> sameName b a"
  by (simp add: sameName_def)

lemma sameName_trans: "sameName a b \<Longrightarrow> sameName b c \<Longrightarrow> sameName a c"
  by (simp add: sameName_def)

lemma headers_get_cong: "sameName n m \<Longrightarrow> headers_get h n = headers_get h m"
  by (simp add: headers_get_def sameName_def)

lemma filter_same_removed:
  "filter (\<lambda>(n, v). sameName n m) (filter (\<lambda>(n, v). \<not> sameName n k) h)
      = (if sameName k m then [] else filter (\<lambda>(n, v). sameName n m) h)"
  unfolding sameName_def by (induction h) auto

lemma filter_same_set:
  "filter (\<lambda>(n, v). sameName n m) (headers_set h k v)
     = (if sameName k m
        then [(case filter (\<lambda>(n, v). sameName n k) h of [] \<Rightarrow> k | (n, w) # _ \<Rightarrow> n, v)]
        else filter (\<lambda>(n, v). sameName n m) h)"
proof (induction h)
  case Nil
  then show ?case by simp
next
  case (Cons a h)
  obtain n w where a: "a = (n, w)" by (cases a)
  show ?case
  proof (cases "sameName n k")
    case True
    then have "sameName n m \<longleftrightarrow> sameName k m" by (simp add: sameName_def)
    with True show ?thesis
      by (simp add: a filter_same_removed del: filter_filter)
  next
    case False
    then have "sameName k m \<Longrightarrow> \<not> sameName n m" by (simp add: sameName_def)
    with False Cons.IH show ?thesis
      by (auto simp: a)
  qed
qed

lemma headers_get_set:
  "headers_get (headers_set h k v) m = (if sameName k m then Some v else headers_get h m)"
  by (simp add: headers_get_def filter_same_set)

lemma filter_headers_set:
  assumes "\<And>n. sameName n k \<Longrightarrow> Q n"
  shows "filter (\<lambda>(n, v). \<not> Q n) (headers_set h k v) = filter (\<lambda>(n, v). \<not> Q n) h"
proof (induction h)
  case Nil
  then show ?case using assms[OF sameName_refl] by simp
next
  case (Cons a h)
  obtain n w where a: "a = (n, w)" by (cases a)
  have *: "filter (\<lambda>(n, v). \<not> Q n) (filter (\<lambda>(n, v). \<not> sameName n k) h)
      = filter (\<lambda>(n, v). \<not> Q n) h"
    using assms by (induction h) auto
  show ?case
  proof (cases "sameName n k")
    case True
    with assms have "Q n" by simp
    with True show ?thesis by (simp add: a * del: filter_filter)
  next
    case False
    with Cons.IH show ?thesis by (simp add: a)
  qed
qed

section \<open>The Redirect Rewriter\<close>

lemma otherHeaders_set:
  "list_ex (sameName k) names \<Longrightarrow> otherHeaders names (headers_set h k v) = otherHeaders names h"
  unfolding otherHeaders_def
  by (rule filter_headers_set) (auto simp: list_ex_iff sameName_def)

lemma list_ex_finisher:
  assumes "set finisherNames \<subseteq> set names"
  shows "list_ex (sameName (js ''Cache-Control'')) names"
    "list_ex (sameName (js ''Pragma'')) names"
    "list_ex (sameName (js ''Expires'')) names"
    "list_ex (sameName (js ''Access-Control-Allow-Origin'')) names"
    "list_ex (sameName (js ''Access-Control-Allow-Methods'')) names"
    "list_ex (sameName (js ''Access-Control-Allow-Headers'')) names"
  using assms sameName_refl by (auto simp: finisherNames_def list_ex_iff)

lemma otherHeaders_setNoCache:
  "set finisherNames \<subseteq> set names \<Longrightarrow> otherHeaders names (setNoCacheHeaders h) = otherHeaders names h"
  by (simp add: setNoCacheHeaders_def otherHeaders_set list_ex_finisher)

lemma otherHeaders_setCors:
  "set finisherNames \<subseteq> set names \<Longrightarrow> otherHeaders names (setCorsHeaders h) = otherHeaders names h"
  by (simp add: setCorsHeaders_def otherHeaders_set list_ex_finisher)

lemma latin1_wellFormed: "latin1 s \<Longrightarrow> isWellFormed s"
proof (induction s rule: isWellFormed.induct)
  case 1
  then show ?case by simp
next
  case (2 c)
  then show ?case
    by (auto simp: latin1_def isLeadingSurrogate_def isTrailingSurrogate_def word_le_nat_alt)
next
  case (3 c d cs)
  then show ?case
    by (auto simp: latin1_def isLeadingSurrogate_def isTrailingSurrogate_def word_le_nat_alt)
qed

lemma modifiedLocation_total:
  "isWellFormed loc \<Longrightarrow> \<exists>l. modifiedLocation P loc = Inr l"
  using encode_total[of loc]
  by (auto simp: modifiedLocation_def prefixed_def split: option.splits sum.splits)

lemma finished_redirect:
  assumes "st \<in> set [301, 302, 303, 307, 308]"
  shows "finished (Body b) st stt h
     = Inr \<lparr>res_status = st, res_statusText = stt,
            res_headers = setCorsHeaders (setNoCacheHeaders h), res_body = b\<rparr>"
  using assms by (auto simp: finished_def Response_new_def)

lemma location_names: "sameName (js ''location'') (js ''Location'')"
  by code_simp

lemma handleRedirect_eq:
  assumes "res_status response \<in> set [301, 302, 303, 307, 308]"
  shows "handleRedirect P response =
     (let hs = res_headers response; loc = headers_get hs (js ''Location'') in
      if falsy loc then
        Inr \<lparr>res_status = res_status response, res_statusText = res_statusText response,
             res_headers = setCorsHeaders (setNoCacheHeaders hs), res_body = res_body response\<rparr>
      else
        (case modifiedLocation P (orEmpty loc) of
           Inl x \<Rightarrow> Inl x
         | Inr l \<Rightarrow>
             Inr \<lparr>res_status = res_status response, res_statusText = res_statusText response,
                  res_headers = setCorsHeaders (setNoCacheHeaders (headers_set hs (js ''Location'') l)),
                  res_body = res_body response\<rparr>))"
  by (simp add: handleRedirect_def Let_def finished_redirect[OF assms]
      headers_get_cong[OF location_names] orElse_def split: sum.splits)

lemma finisher_present:
  "list_all (\<lambda>(n, v). headers_get (setCorsHeaders (setNoCacheHeaders h)) n = Some v)
     [(js ''Cache-Control'', js ''no-store''), (js ''Pragma'', js ''no-cache''),
      (js ''Expires'', js ''0''), (js ''Access-Control-Allow-Origin'', js ''*''),
      (js ''Access-Control-Allow-Methods'', js ''GET, POST, PUT, DELETE, OPTIONS''),
      (js ''Access-Control-Allow-Headers'', js ''*'')]"
proof -
  have n: "\<not> sameName (js ''Pragma'') (js ''Cache-Control'')"
    "\<not> sameName (js ''Expires'') (js ''Cache-Control'')"
    "\<not> sameName (js ''Access-Control-Allow-Origin'') (js ''Cache-Control'')"
    "\<not> sameName (js ''Access-Control-Allow-Methods'') (js ''Cache-Control'')"
    "\<not> sameName (js ''Access-Control-Allow-Headers'') (js ''Cache-Control'')"
    "\<not> sameName (js ''Expires'') (js ''Pragma'')"
    "\<not> sameName (js ''Access-Control-Allow-Origin'') (js ''Pragma'')"
    "\<not> sameName (js ''Access-Control-Allow-Methods'') (js ''Pragma'')"
    "\<not> sameName (js ''Access-Control-Allow-Headers'') (js ''Pragma'')"
    "\<not> sameName (js ''Access-Control-Allow-Origin'') (js ''Expires'')"
    "\<not> sameName (js ''Access-Control-Allow-Methods'') (js ''Expires'')"
    "\<not> sameName (js ''Access-Control-Allow-Headers'') (js ''Expires'')"
    "\<not> sameName (js ''Access-Control-Allow-Methods'') (js ''Access-Control-Allow-Origin'')"
    "\<not> sameName (js ''Access-Control-Allow-Headers'') (js ''Access-Control-Allow-Origin'')"
    "\<not> sameName (js ''Access-Control-Allow-Headers'') (js ''Access-Control-Allow-Methods'')"
    by code_simp+
  show ?thesis
    by (simp add: setCorsHeaders_def setNoCacheHeaders_def headers_get_set n sameName_refl)
qed





lemma location_get_final:
  "headers_get (setCorsHeaders (setNoCacheHeaders (headers_set h (js ''Location'') l)))
     (js ''Location'') = Some l"
proof -
  have n: "\<not> sameName (js ''Cache-Control'') (js ''Location'')"
    "\<not> sameName (js ''Pragma'') (js ''Location'')"
    "\<not> sameName (js ''Expires'') (js ''Location'')"
    "\<not> sameName (js ''Access-Control-Allow-Origin'') (js ''Location'')"
    "\<not> sameName (js ''Access-Control-Allow-Methods'') (js ''Location'')"
    "\<not> sameName (js ''Access-Control-Allow-Headers'') (js ''Location'')"
    by code_simp+
  show ?thesis
    by (simp add: setCorsHeaders_def setNoCacheHeaders_def headers_get_set n sameName_refl)
qed




section \<open>The error responses\<close>

lemma response_config:
  "Response_new (Text t) 500 [] [(js ''Content-Type'', js ''text/plain; charset=utf-8'')]
    = Inr \<lparr>res_status = 500, res_statusText = [],
           res_headers = [(js ''Content-Type'', js ''text/plain; charset=utf-8'')],
           res_body = Stream (map of_nat (UTF8Encode t))\<rparr>"
proof -
  have "headers_get [(js ''Content-Type'', js ''text/plain; charset=utf-8'')] (js ''Content-Type'')
      \<noteq> None"
    by (simp add: headers_get_def sameName_refl)
  then show ?thesis by (simp add: Response_new_def)
qed

lemma response_unauthorized:
  "Response_new (Text t) 401 [] [(js ''WWW-Authenticate'', js ''Basic realm=\"Protected\"'')]
    = Inr \<lparr>res_status = 401, res_statusText = [],
           res_headers = [(js ''WWW-Authenticate'', js ''Basic realm=\"Protected\"''),
                          (js ''Content-Type'', js ''text/plain;charset=UTF-8'')],
           res_body = Stream (map of_nat (UTF8Encode t))\<rparr>"
proof -
  have "\<not> sameName (js ''WWW-Authenticate'') (js ''Content-Type'')" by code_simp
  then have "headers_get [(js ''WWW-Authenticate'', js ''Basic realm=\"Protected\"'')]
      (js ''Content-Type'') = None"
    by (simp add: headers_get_def)
  then show ?thesis by (simp add: Response_new_def)
qed

lemma response_json:
  "jsonResponse P d 500
    = Inr \<lparr>res_status = 500, res_statusText = [],
           res_headers = [(js ''Content-Type'', js ''application/json; charset=utf-8''),
                          (js ''Cache-Control'', js ''no-store'')],
           res_body = Stream (map of_nat (UTF8Encode (JSON_stringify P d)))\<rparr>"
proof -
  have "headers_get [(js ''Content-Type'', js ''application/json; charset=utf-8''),
                          (js ''Cache-Control'', js ''no-store'')] (js ''Content-Type'') \<noteq> None"
    by (simp add: headers_get_def sameName_refl)
  then show ?thesis by (simp add: jsonResponse_def Response_new_def)
qed

lemma checkAuth_cases:
  "checkAuth request e = Inr (AuthFail (js ''PASSWORD not set'')) \<longleftrightarrow> falsy (PASSWORD e)"
proof -
  have "js ''Auth required'' \<noteq> js ''PASSWORD not set''" by (simp add: js_def)
  then show ?thesis by (auto simp: checkAuth_def Let_def split: sum.splits)
qed

lemma handleRequest_total: "\<exists>r. handleRequest P request e = Inr r"
  by (cases "handleRequest_try P request e") (simp_all add: handleRequest_def response_json)

text \<open>
  Claim C7, as amended. The response for a missing secret has the status 500 and the
  single header \<open>Content-Type\<close>; the response for a request that is not authorized
  has the status 401 and the headers \<open>WWW-Authenticate\<close> and \<open>Content-Type\<close>; the
  response for an exception of the \<open>try\<close> block has the status 500 and the headers
  \<open>Content-Type\<close> and \<open>Cache-Control: no-store\<close>. So, of the three cache headers and
  the three CORS headers, the first two responses have none, and the JSON error
  response has \<open>Cache-Control\<close> only.
\<close>

theorem error_responses_headers:
  "(falsy (PASSWORD e) \<longrightarrow>
      handleRequest P request e =
        Inr \<lparr>res_status = 500, res_statusText = [],
             res_headers = [(js ''Content-Type'', js ''text/plain; charset=utf-8'')],
             res_body = Stream (map of_nat (UTF8Encode
               (js ''PASSWORD not set in Cloudflare Pages/Workers environment variables.'')))\<rparr>)
   \<and> (checkAuth request e = Inr (AuthFail (js ''Auth required'')) \<longrightarrow>
      handleRequest P request e =
        Inr \<lparr>res_status = 401, res_statusText = [],
             res_headers = [(js ''WWW-Authenticate'', js ''Basic realm=\"Protected\"''),
                            (js ''Content-Type'', js ''text/plain;charset=UTF-8'')],
             res_body = Stream (map of_nat (UTF8Encode (js ''Auth required'')))\<rparr>)
   \<and> (handleRequest_try P request e = Inl x \<longrightarrow>
      handleRequest P request e =
        Inr \<lparr>res_status = 500, res_statusText = [],
             res_headers = [(js ''Content-Type'', js ''application/json; charset=utf-8''),
                            (js ''Cache-Control'', js ''no-store'')],
             res_body = Stream (map of_nat (UTF8Encode
               (JSON_stringify P [(js ''error'', error_text P x)])))\<rparr>)
   \<and> map (headers_get [(js ''Content-Type'', js ''text/plain; charset=utf-8'')]) finisherNames
       = [None, None, None, None, None, None]
   \<and> map (headers_get [(js ''WWW-Authenticate'', js ''Basic realm=\"Protected\"''),
                        (js ''Content-Type'', js ''text/plain;charset=UTF-8'')]) finisherNames
       = [None, None, None, None, None, None]
   \<and> map (headers_get [(js ''Content-Type'', js ''application/json; charset=utf-8''),
                        (js ''Cache-Control'', js ''no-store'')]) finisherNames
       = [Some (js ''no-store''), None, None, None, None, None]"
proof (intro conjI impI)
  assume "falsy (PASSWORD e)"
  then have "checkAuth request e = Inr (AuthFail (js ''PASSWORD not set''))"
    by (simp add: checkAuth_cases)
  then show "handleRequest P request e =
        Inr \<lparr>res_status = 500, res_statusText = [],
             res_headers = [(js ''Content-Type'', js ''text/plain; charset=utf-8'')],
             res_body = Stream (map of_nat (UTF8Encode
               (js ''PASSWORD not set in Cloudflare Pages/Workers environment variables.'')))\<rparr>"
    by (simp add: handleRequest_def handleRequest_try_def response_config)
next
  assume a: "checkAuth request e = Inr (AuthFail (js ''Auth required''))"
  have "js ''Auth required'' \<noteq> js ''PASSWORD not set''" by (simp add: js_def)
  with a show "handleRequest P request e =
        Inr \<lparr>res_status = 401, res_statusText = [],
             res_headers = [(js ''WWW-Authenticate'', js ''Basic realm=\"Protected\"''),
                            (js ''Content-Type'', js ''text/plain;charset=UTF-8'')],
             res_body = Stream (map of_nat (UTF8Encode (js ''Auth required'')))\<rparr>"
    by (simp add: handleRequest_def handleRequest_try_def response_unauthorized)
next
  assume "handleRequest_try P request e = Inl x"
  then show "handleRequest P request e =
        Inr \<lparr>res_status = 500, res_statusText = [],
             res_headers = [(js ''Content-Type'', js ''application/json; charset=utf-8''),
                            (js ''Cache-Control'', js ''no-store'')],
             res_body = Stream (map of_nat (UTF8Encode
               (JSON_stringify P [(js ''error'', error_text P x)])))\<rparr>"
    by (simp add: handleRequest_def response_json)
next
  show "map (headers_get [(js ''Content-Type'', js ''text/plain; charset=utf-8'')]) finisherNames
       = [None, None, None, None, None, None]" by code_simp
  show "map (headers_get [(js ''WWW-Authenticate'', js ''Basic realm=\"Protected\"''),
                        (js ''Content-Type'', js ''text/plain;charset=UTF-8'')]) finisherNames
       = [None, None, None, None, None, None]" by code_simp
  show "map (headers_get [(js ''Content-Type'', js ''application/json; charset=utf-8''),
                        (js ''Cache-Control'', js ''no-store'')]) finisherNames
       = [Some (js ''no-store''), None, None, None, None, None]" by code_simp
qed

theorem error_responses_headers_witness:
  "falsy (PASSWORD \<lparr>PASSWORD = None\<rparr>)
   \<and> handleRequest example_platform (example_request []) \<lparr>PASSWORD = None\<rparr> =
        Inr \<lparr>res_status = 500, res_statusText = [],
             res_headers = [(js ''Content-Type'', js ''text/plain; charset=utf-8'')],
             res_body = Stream (map of_nat (UTF8Encode
               (js ''PASSWORD not set in Cloudflare Pages/Workers environment variables.'')))\<rparr>
   \<and> checkAuth (example_request []) \<lparr>PASSWORD = Some (js ''pw'')\<rparr>
        = Inr (AuthFail (js ''Auth required''))
   \<and> handleRequest example_platform (example_request []) \<lparr>PASSWORD = Some (js ''pw'')\<rparr> =
        Inr \<lparr>res_status = 401, res_statusText = [],
             res_headers = [(js ''WWW-Authenticate'', js ''Basic realm=\"Protected\"''),
                            (js ''Content-Type'', js ''text/plain;charset=UTF-8'')],
             res_body = Stream (map of_nat (UTF8Encode (js ''Auth required'')))\<rparr>
   \<and> handleRequest_try example_platform
        (example_request [(js ''Authorization'', js ''Basic YWRtaW46cHc='')])
        \<lparr>PASSWORD = Some (js ''pw'')\<rparr> = Inl (PlatformError (js ''fetch failed''))
   \<and> handleRequest example_platform
        (example_request [(js ''Authorization'', js ''Basic YWRtaW46cHc='')])
        \<lparr>PASSWORD = Some (js ''pw'')\<rparr> =
        Inr \<lparr>res_status = 500, res_statusText = [],
             res_headers = [(js ''Content-Type'', js ''application/json; charset=utf-8''),
                            (js ''Cache-Control'', js ''no-store'')],
             res_body = Stream (map of_nat (UTF8Encode
               (JSON_stringify example_platform
                  [(js ''error'', error_text example_platform
                      (PlatformError (js ''fetch failed'')))])))\<rparr>"
proof -
  have 1: "falsy (PASSWORD \<lparr>PASSWORD = None\<rparr>)" by (simp add: falsy_def)
  have 2: "checkAuth (example_request []) \<lparr>PASSWORD = Some (js ''pw'')\<rparr>
        = Inr (AuthFail (js ''Auth required''))" by code_simp
  have 3: "handleRequest_try example_platform
        (example_request [(js ''Authorization'', js ''Basic YWRtaW46cHc='')])
        \<lparr>PASSWORD = Some (js ''pw'')\<rparr> = Inl (PlatformError (js ''fetch failed''))" by code_simp
  note h1 = error_responses_headers[THEN conjunct1, THEN mp, OF 1]
  note h2 = error_responses_headers[THEN conjunct2, THEN conjunct1, THEN mp, OF 2]
  note h3 = error_responses_headers[THEN conjunct2, THEN conjunct2, THEN conjunct1, THEN mp, OF 3]
  show ?thesis
    by (intro conjI 1 2 3 h1 h2 h3)
qed

text \<open>
  Claim C7 as stated fails: the responses with the status 500 for a missing secret and
  with the status 401 have no \<open>Cache-Control\<close> header, and the JSON error response
  (here for a failing \<open>fetch\<close>) has neither \<open>Pragma\<close> nor
  \<open>Access-Control-Allow-Origin\<close>.
\<close>

theorem error_responses_headers_counterexample:
  "map_sum id (\<lambda>r. (res_status r, headers_get (res_headers r) (js ''Cache-Control'')))
      (handleRequest example_platform (example_request []) \<lparr>PASSWORD = None\<rparr>)
     = Inr (500, None)
   \<and> map_sum id (\<lambda>r. (res_status r, headers_get (res_headers r) (js ''Cache-Control'')))
      (handleRequest example_platform (example_request []) \<lparr>PASSWORD = Some (js ''pw'')\<rparr>)
     = Inr (401, None)
   \<and> map_sum id (\<lambda>r. (res_status r, headers_get (res_headers r) (js ''Pragma''),
                      headers_get (res_headers r) (js ''Access-Control-Allow-Origin'')))
      (handleRequest example_platform
         (example_request [(js ''Authorization'', js ''Basic YWRtaW46cHc='')])
         \<lparr>PASSWORD = Some (js ''pw'')\<rparr>)
     = Inr (500, None, None)"
  by code_simp

section \<open>The two Auth Gates\<close>

lemma gate_iff:
  "checkAuth request \<lparr>PASSWORD = pw\<rparr> = Inr AuthOk
     \<longleftrightarrow> pages_gate request \<lparr>PASSWORD = pw, ASSETS = a\<rparr> = Inr None"
  by (auto simp: checkAuth_def pages_gate_def Let_def response_config response_unauthorized
      split: sum.splits)

text \<open>
  Claim C10, as amended. For every secret and every request, \<open>checkAuth\<close> authorizes
  the request if and only if the inline check of the Pages worker lets it pass. When
  the secret is not set, both workers respond with the status 500, an empty status
  text and the header \<open>Content-Type: text/plain; charset=utf-8\<close> (the texts of the two
  bodies differ). When the secret is set and has no code unit above U+00FF, and the
  request is not authorized, both workers produce the same response, with the status
  401 and the header \<open>WWW-Authenticate: Basic realm="Protected"\<close>.
\<close>

theorem auth_gates_agree:
  "(checkAuth request \<lparr>PASSWORD = pw\<rparr> = Inr AuthOk
      \<longleftrightarrow> pages_gate request \<lparr>PASSWORD = pw, ASSETS = a\<rparr> = Inr None)
   \<and> (falsy pw \<longrightarrow>
        (\<exists>b b'. handleRequest P request \<lparr>PASSWORD = pw\<rparr>
                  = Inr \<lparr>res_status = 500, res_statusText = [],
                       res_headers = [(js ''Content-Type'', js ''text/plain; charset=utf-8'')],
                       res_body = b\<rparr>
              \<and> pages_fetch request \<lparr>PASSWORD = pw, ASSETS = a\<rparr>
                  = Inr \<lparr>res_status = 500, res_statusText = [],
                       res_headers = [(js ''Content-Type'', js ''text/plain; charset=utf-8'')],
                       res_body = b'\<rparr>))
   \<and> (pw = Some s \<and> s \<noteq> [] \<and> latin1 s \<and> checkAuth request \<lparr>PASSWORD = pw\<rparr> \<noteq> Inr AuthOk \<longrightarrow>
        pages_fetch request \<lparr>PASSWORD = pw, ASSETS = a\<rparr> = handleRequest P request \<lparr>PASSWORD = pw\<rparr>
        \<and> handleRequest P request \<lparr>PASSWORD = pw\<rparr>
           = Inr \<lparr>res_status = 401, res_statusText = [],
                 res_headers = [(js ''WWW-Authenticate'', js ''Basic realm=\"Protected\"''),
                                (js ''Content-Type'', js ''text/plain;charset=UTF-8'')],
                 res_body = Stream (map of_nat (UTF8Encode (js ''Auth required'')))\<rparr>)"
proof (intro conjI impI)
  show "checkAuth request \<lparr>PASSWORD = pw\<rparr> = Inr AuthOk
      \<longleftrightarrow> pages_gate request \<lparr>PASSWORD = pw, ASSETS = a\<rparr> = Inr None"
    by (rule gate_iff)
next
  assume f: "falsy pw"
  have 1: "handleRequest P request \<lparr>PASSWORD = pw\<rparr>
      = Inr \<lparr>res_status = 500, res_statusText = [],
             res_headers = [(js ''Content-Type'', js ''text/plain; charset=utf-8'')],
             res_body = Stream (map of_nat (UTF8Encode
               (js ''PASSWORD not set in Cloudflare Pages/Workers environment variables.'')))\<rparr>"
    using f checkAuth_cases[of request "\<lparr>PASSWORD = pw\<rparr>"]
    by (simp add: handleRequest_def handleRequest_try_def response_config)
  have 2: "pages_fetch request \<lparr>PASSWORD = pw, ASSETS = a\<rparr>
      = Inr \<lparr>res_status = 500, res_statusText = [],
             res_headers = [(js ''Content-Type'', js ''text/plain; charset=utf-8'')],
             res_body = Stream (map of_nat (UTF8Encode
               (js ''PASSWORD not set in Cloudflare Pages environment.'')))\<rparr>"
    using f by (simp add: pages_fetch_def pages_gate_def response_config)
  from 1 2 show "\<exists>b b'. handleRequest P request \<lparr>PASSWORD = pw\<rparr>
                  = Inr \<lparr>res_status = 500, res_statusText = [],
                       res_headers = [(js ''Content-Type'', js ''text/plain; charset=utf-8'')],
                       res_body = b\<rparr>
              \<and> pages_fetch request \<lparr>PASSWORD = pw, ASSETS = a\<rparr>
                  = Inr \<lparr>res_status = 500, res_statusText = [],
                       res_headers = [(js ''Content-Type'', js ''text/plain; charset=utf-8'')],
                       res_body = b'\<rparr>"
    by blast
next
  assume a: "pw = Some s \<and> s \<noteq> [] \<and> latin1 s \<and> checkAuth request \<lparr>PASSWORD = pw\<rparr> \<noteq> Inr AuthOk"
  have l: "latin1 (js ''admin:'' @ s)" using a by (simp add: latin1_def js_def)
  then obtain b where b: "btoa (js ''admin:'' @ s) = Inr b" by (simp add: btoa_def)
  have nf: "\<not> falsy pw" using a by (simp add: falsy_def)
  have ne: "orEmpty (headers_get (req_headers request) (js ''Authorization'')) \<noteq> js ''Basic '' @ b"
    using a b by (auto simp: checkAuth_def Let_def falsy_def orEmpty_def)
  have c: "checkAuth request \<lparr>PASSWORD = pw\<rparr> = Inr (AuthFail (js ''Auth required''))"
    using a b ne by (simp add: checkAuth_def Let_def falsy_def orEmpty_def)
  have x: "js ''Auth required'' \<noteq> js ''PASSWORD not set''" by (simp add: js_def)
  have 1: "handleRequest P request \<lparr>PASSWORD = pw\<rparr>
           = Inr \<lparr>res_status = 401, res_statusText = [],
                 res_headers = [(js ''WWW-Authenticate'', js ''Basic realm=\"Protected\"''),
                                (js ''Content-Type'', js ''text/plain;charset=UTF-8'')],
                 res_body = Stream (map of_nat (UTF8Encode (js ''Auth required'')))\<rparr>"
    using c x by (simp add: handleRequest_def handleRequest_try_def response_unauthorized)
  have 2: "pages_fetch request \<lparr>PASSWORD = pw, ASSETS = a\<rparr>
           = Inr \<lparr>res_status = 401, res_statusText = [],
                 res_headers = [(js ''WWW-Authenticate'', js ''Basic realm=\"Protected\"''),
                                (js ''Content-Type'', js ''text/plain;charset=UTF-8'')],
                 res_body = Stream (map of_nat (UTF8Encode (js ''Auth required'')))\<rparr>"
    using a b ne
    by (simp add: pages_fetch_def pages_gate_def Let_def falsy_def orEmpty_def response_unauthorized)
  show "pages_fetch request \<lparr>PASSWORD = pw, ASSETS = a\<rparr> = handleRequest P request \<lparr>PASSWORD = pw\<rparr>"
    using 1 2 by simp
  show "handleRequest P request \<lparr>PASSWORD = pw\<rparr>
           = Inr \<lparr>res_status = 401, res_statusText = [],
                 res_headers = [(js ''WWW-Authenticate'', js ''Basic realm=\"Protected\"''),
                                (js ''Content-Type'', js ''text/plain;charset=UTF-8'')],
                 res_body = Stream (map of_nat (UTF8Encode (js ''Auth required'')))\<rparr>"
    by (rule 1)
qed

theorem auth_gates_agree_witness:
  "falsy None
   \<and> pages_fetch (example_request []) \<lparr>PASSWORD = None, ASSETS = None\<rparr>
        = Inr \<lparr>res_status = 500, res_statusText = [],
               res_headers = [(js ''Content-Type'', js ''text/plain; charset=utf-8'')],
               res_body = Stream (map of_nat (UTF8Encode
                 (js ''PASSWORD not set in Cloudflare Pages environment.'')))\<rparr>
   \<and> js ''pw'' \<noteq> [] \<and> latin1 (js ''pw'')
   \<and> checkAuth (example_request []) \<lparr>PASSWORD = Some (js ''pw'')\<rparr> \<noteq> Inr AuthOk
   \<and> pages_fetch (example_request []) \<lparr>PASSWORD = Some (js ''pw''), ASSETS = None\<rparr>
        = handleRequest example_platform (example_request []) \<lparr>PASSWORD = Some (js ''pw'')\<rparr>
   \<and> checkAuth (example_request [(js ''Authorization'', js ''Basic YWRtaW46cHc='')])
        \<lparr>PASSWORD = Some (js ''pw'')\<rparr> = Inr AuthOk
   \<and> pages_gate (example_request [(js ''Authorization'', js ''Basic YWRtaW46cHc='')])
        \<lparr>PASSWORD = Some (js ''pw''), ASSETS = None\<rparr> = Inr None"
proof -
  have 1: "falsy None" by (simp add: falsy_def)
  have 2: "pages_fetch (example_request []) \<lparr>PASSWORD = None, ASSETS = None\<rparr>
        = Inr \<lparr>res_status = 500, res_statusText = [],
               res_headers = [(js ''Content-Type'', js ''text/plain; charset=utf-8'')],
               res_body = Stream (map of_nat (UTF8Encode
                 (js ''PASSWORD not set in Cloudflare Pages environment.'')))\<rparr>"
    using 1 by (simp add: pages_fetch_def pages_gate_def response_config)
  have 3: "js ''pw'' \<noteq> []" "latin1 (js ''pw'')" by code_simp+
  have 4: "checkAuth (example_request []) \<lparr>PASSWORD = Some (js ''pw'')\<rparr> \<noteq> Inr AuthOk"
    by code_simp
  have 5: "Some (js ''pw'') = Some (js ''pw'') \<and> js ''pw'' \<noteq> [] \<and> latin1 (js ''pw'')
      \<and> checkAuth (example_request []) \<lparr>PASSWORD = Some (js ''pw'')\<rparr> \<noteq> Inr AuthOk"
    using 3 4 by simp
  note h = auth_gates_agree[THEN conjunct2, THEN conjunct2, THEN mp, OF 5, THEN conjunct1]
  have 6: "checkAuth (example_request [(js ''Authorization'', js ''Basic YWRtaW46cHc='')])
        \<lparr>PASSWORD = Some (js ''pw'')\<rparr> = Inr AuthOk" by code_simp
  note g = auth_gates_agree[THEN conjunct1, THEN iffD1, OF 6]
  show ?thesis
    by (intro conjI 1 2 3 4 h 6 g)
qed

text \<open>
  Claim C10 as stated fails: the two responses for a missing secret are different,
  since their bodies are; and for a secret with a code unit above U+00FF (here U+5BC6
  U+7801) the worker of \<open>_worker.js\<close> responds with the status 500, not 401, and the
  Pages worker raises \<open>InvalidCharacterError\<close>.
\<close>

theorem auth_gates_agree_counterexample:
  "handleRequest example_platform (example_request []) \<lparr>PASSWORD = None\<rparr>
     \<noteq> pages_fetch (example_request []) \<lparr>PASSWORD = None, ASSETS = None\<rparr>
   \<and> map_sum id res_body
        (handleRequest example_platform (example_request []) \<lparr>PASSWORD = None\<rparr>)
      = Inr (Stream (map of_nat (UTF8Encode
          (js ''PASSWORD not set in Cloudflare Pages/Workers environment variables.''))))
   \<and> map_sum id res_body
        (pages_fetch (example_request []) \<lparr>PASSWORD = None, ASSETS = None\<rparr>)
      = Inr (Stream (map of_nat (UTF8Encode
          (js ''PASSWORD not set in Cloudflare Pages environment.''))))
   \<and> map_sum id res_status
        (handleRequest example_platform (example_request []) \<lparr>PASSWORD = Some [0x5BC6, 0x7801]\<rparr>)
      = Inr 500
   \<and> pages_fetch (example_request []) \<lparr>PASSWORD = Some [0x5BC6, 0x7801], ASSETS = None\<rparr>
      = Inl InvalidCharacterError"
  by code_simp

section \<open>The HTML Rewriter\<close>

lemma subst_plain: "0x24 \<notin> set t \<Longrightarrow> GetSubstitution m p f t = t"
  by (induction t) auto

lemma captureReference_one:
  "length caps = 2 \<Longrightarrow> captureReference caps 0x31 t = (caps ! 0, t)"
  by (cases t) (auto simp: captureReference_def Let_def digitValue_def isDigit_def)

lemma subst_template:
  assumes "length (captures m) = 2" "0x24 \<notin> set t"
  shows "GetSubstitution m p f (js ''$1'' @ t) = captures m ! 0 @ t"
proof -
  have "js ''$1'' @ t = 0x24 # 0x31 # t" by (simp add: js_def)
  then show ?thesis
    by (simp add: captureReference_one[OF assms(1)] subst_plain[OF assms(2)] isDigit_def)
qed

lemma matchAttribute_prefix:
  "attr \<in> set attributeNames \<Longrightarrow> matchAttribute (attr @ t) = Some attr"
  by (auto simp: attributeNames_def matchAttribute_def startsWith_def js_def)

lemma matchAttribute_Some:
  "matchAttribute s = Some attr \<Longrightarrow> attr \<in> set attributeNames \<and> (\<exists>t. s = attr @ t)"
  by (auto simp: attributeNames_def matchAttribute_def startsWith_iff split: if_splits)

lemma matchHere_match:
  assumes "attr \<in> set attributeNames" "q = 0x22 \<or> q = 0x27" "\<not> startsWith rest (js ''/'')"
  shows "matchHere (attr @ 0x3D # q # 0x2F # rest)
     = Some \<lparr>matched = attr @ [0x3D, q, 0x2F], captures = [attr @ [0x3D, q], attr]\<rparr>"
  using assms(2,3) by (auto simp: matchHere_def matchAttribute_prefix[OF assms(1)])

lemma matchHere_Some:
  assumes "matchHere s = Some m"
  shows "\<exists>attr q rest. attr \<in> set attributeNames \<and> (q = 0x22 \<or> q = 0x27) \<and> \<not> startsWith rest (js ''/'')
     \<and> s = attr @ 0x3D # q # 0x2F # rest
     \<and> m = \<lparr>matched = attr @ [0x3D, q, 0x2F], captures = [attr @ [0x3D, q], attr]\<rparr>"
proof -
  from assms obtain attr where a: "matchAttribute s = Some attr"
    by (auto simp: matchHere_def split: option.splits)
  from matchAttribute_Some[OF a] obtain t where t: "attr \<in> set attributeNames" "s = attr @ t" by blast
  from assms a t show ?thesis
    by (auto simp: matchHere_def split: list.splits if_splits)
qed


text \<open>The template of \<open>replaceRelativePaths\<close> without a dollar sign in its parameters.\<close>

lemma replaceMatches_Nil: "replaceMatches t p [] = []"
  by simp

lemma replaceMatches_None:
  "matchHere (c # cs) = None \<Longrightarrow> replaceMatches t p (c # cs) = c # replaceMatches t (p @ [c]) cs"
  by simp

lemma replaceMatches_Some:
  assumes "matchHere s = Some m" "0x24 \<notin> set r"
  shows "replaceMatches (js ''$1'' @ r) p s
     = captures m ! 0 @ r @ replaceMatches (js ''$1'' @ r) (p @ matched m) (drop (length (matched m)) s)"
proof -
  from matchHere_Some[OF assms(1)] obtain attr q rest where
    m: "m = \<lparr>matched = attr @ [0x3D, q, 0x2F], captures = [attr @ [0x3D, q], attr]\<rparr>"
    and s: "s = attr @ 0x3D # q # 0x2F # rest" and a: "attr \<in> set attributeNames"
    by blast
  from a obtain c cs where cs: "s = c # cs"
    by (cases s) (auto simp: s attributeNames_def js_def)
  have l: "length (captures m) = 2" by (simp add: m)
  have d: "drop (length (matched m) - Suc 0) cs = drop (length (matched m)) (c # cs)"
    by (simp add: m)
  show ?thesis
    using assms(1) unfolding cs
    by (simp add: subst_template[OF l assms(2)] d)
qed

lemma replaceMatches_preceding:
  assumes "0x24 \<notin> set r"
  shows "replaceMatches (js ''$1'' @ r) p s = replaceMatches (js ''$1'' @ r) p' s"
proof (induction "length s" arbitrary: s p p' rule: less_induct)
  case less
  show ?case
  proof (cases s)
    case Nil
    then show ?thesis by simp
  next
    case (Cons c cs)
    show ?thesis
    proof (cases "matchHere s")
      case None
      then show ?thesis
        using less[of cs "p @ [c]" "p' @ [c]"] by (simp add: Cons)
    next
      case (Some m)
      have "length (drop (length (matched m)) s) < length s"
        using matchHere_Some[OF Some] by (auto simp: Cons)
      from less[OF this] show ?thesis
        by (simp add: replaceMatches_Some[OF Some assms])
    qed
  qed
qed


text \<open>A match begins with h, s or a, and has none of them after its first character.\<close>

lemma matchHere_not_start:
  "c \<noteq> 0x68 \<Longrightarrow> c \<noteq> 0x73 \<Longrightarrow> c \<noteq> 0x61 \<Longrightarrow> matchHere (c # cs) = None"
  by (auto simp: matchHere_def matchAttribute_def startsWith_def js_def)

lemma match_tail:
  assumes "attr \<in> set attributeNames" "q = 0x22 \<or> q = 0x27"
    and "pre @ us = attr @ [0x3D, q, 0x2F]" "pre \<noteq> []" "us \<noteq> []"
  shows "\<not> startsAttr (us @ t)"
proof -
  have "set us \<subseteq> set (tl (pre @ us))" using assms(4) by (cases pre) auto
  then have "hd us \<in> set (tl (attr @ [0x3D, q, 0x2F]))"
    using assms(3,5) by (metis hd_in_set subsetD)
  then have "hd us \<noteq> 0x68 \<and> hd us \<noteq> 0x73 \<and> hd us \<noteq> 0x61"
    using assms(1,2) by (auto simp: attributeNames_def js_def)
  then show ?thesis using assms(5) by (cases us) (auto simp: startsAttr_def)
qed

lemma lookahead_append:
  "startsAttr s \<Longrightarrow> startsWith (rest @ s) (js ''/'') \<longleftrightarrow> startsWith rest (js ''/'')"
  by (cases rest; cases s) (auto simp: startsWith_def js_def startsAttr_def)

lemma matchHere_append:
  assumes "pre \<noteq> []" "startsAttr s"
  shows "matchHere (pre @ s) = matchHere pre"
proof (cases "matchHere pre")
  case (Some m)
  from matchHere_Some[OF Some] obtain attr q rest where
    *: "attr \<in> set attributeNames" "q = 0x22 \<or> q = 0x27" "\<not> startsWith rest (js ''/'')"
    "pre = attr @ 0x3D # q # 0x2F # rest"
    "m = \<lparr>matched = attr @ [0x3D, q, 0x2F], captures = [attr @ [0x3D, q], attr]\<rparr>"
    by blast
  have "\<not> startsWith (rest @ s) (js ''/'')" using *(3) assms(2) by (simp add: lookahead_append)
  from matchHere_match[OF *(1,2) this] have "matchHere (pre @ s) = Some m"
    by (simp add: *(4,5))
  then show ?thesis using Some by simp
next
  case None
  show ?thesis
  proof (cases "matchHere (pre @ s)")
    case None
    with \<open>matchHere pre = None\<close> show ?thesis by simp
  next
    case (Some m)
    from matchHere_Some[OF Some] obtain attr q rest where
      *: "attr \<in> set attributeNames" "q = 0x22 \<or> q = 0x27" "\<not> startsWith rest (js ''/'')"
      "pre @ s = (attr @ [0x3D, q, 0x2F]) @ rest"
      "m = \<lparr>matched = attr @ [0x3D, q, 0x2F], captures = [attr @ [0x3D, q], attr]\<rparr>"
      by auto
    define M where "M = attr @ [0x3D, q, 0x2F]"
    have "pre @ s = M @ rest" using *(4) by (simp add: M_def)
    then have "\<exists>us. (pre = M @ us \<and> us @ s = rest) \<or> (pre @ us = M \<and> s = us @ rest)"
      by (simp add: append_eq_append_conv2)
    then consider us where "pre = M @ us" "us @ s = rest"
      | us where "pre @ us = M" "s = us @ rest" "us \<noteq> []"
      by (metis append_Nil append_Nil2)
    then show ?thesis
    proof cases
      case 1
      have "\<not> startsWith us (js ''/'')"
        using *(3) 1(2) assms(2) by (auto simp: lookahead_append)
      from matchHere_match[OF *(1,2) this] have "matchHere pre \<noteq> None"
        by (simp add: 1(1) M_def)
      with None show ?thesis by simp
    next
      case 2
      from match_tail[OF *(1,2) 2(1)[unfolded M_def] assms(1) 2(3), of rest] assms(2) 2(2)
      show ?thesis by simp
    qed
  qed
qed

lemma replaceMatches_split:
  assumes "0x24 \<notin> set r" "startsAttr s"
  shows "replaceMatches (js ''$1'' @ r) [] (pre @ s)
     = replaceMatches (js ''$1'' @ r) [] pre @ replaceMatches (js ''$1'' @ r) [] s"
proof (induction "length pre" arbitrary: pre rule: less_induct)
  case less
  show ?case
  proof (cases pre)
    case Nil
    then show ?thesis by simp
  next
    case (Cons c cs)
    then have ne: "pre \<noteq> []" by simp
    note mh = matchHere_append[OF ne assms(2)]
    show ?thesis
    proof (cases "matchHere pre")
      case None
      have 1: "replaceMatches (js ''$1'' @ r) [] (pre @ s)
          = c # replaceMatches (js ''$1'' @ r) [] (cs @ s)"
        using None mh replaceMatches_preceding[OF assms(1), of "[c]" "cs @ s" "[]"]
        by (simp add: Cons)
      have 2: "replaceMatches (js ''$1'' @ r) [] pre = c # replaceMatches (js ''$1'' @ r) [] cs"
        using None replaceMatches_preceding[OF assms(1), of "[c]" cs "[]"]
        by (simp add: Cons)
      show ?thesis unfolding 1 2 using less[of cs] by (simp add: Cons)
    next
      case (Some m)
      have k: "length (matched m) \<le> length pre" "0 < length (matched m)"
        using matchHere_Some[OF Some] by auto
      then have l: "length (drop (length (matched m)) pre) < length pre"
        using ne by simp
      have 1: "replaceMatches (js ''$1'' @ r) [] (pre @ s) = captures m ! 0 @ r
          @ replaceMatches (js ''$1'' @ r) [] (drop (length (matched m)) pre @ s)"
        using replaceMatches_Some[of "pre @ s" m r "[]"] Some mh assms(1) k(1)
          replaceMatches_preceding[OF assms(1), of "matched m" _ "[]"]
        by simp
      have 2: "replaceMatches (js ''$1'' @ r) [] pre = captures m ! 0 @ r
          @ replaceMatches (js ''$1'' @ r) [] (drop (length (matched m)) pre)"
        using replaceMatches_Some[OF Some assms(1), of "[]"]
          replaceMatches_preceding[OF assms(1), of "matched m" _ "[]"]
        by simp
      show ?thesis unfolding 1 2 using less[OF l] by simp
    qed
  qed
qed


lemma matchHere_double_slash:
  "attr \<in> set attributeNames \<Longrightarrow> matchHere (attr @ 0x3D # q # 0x2F # 0x2F # rest) = None"
  by (auto simp: matchHere_def matchAttribute_prefix startsWith_def js_def)

lemma replaceMatches_copy:
  assumes "\<And>v u. x = v @ u \<Longrightarrow> u \<noteq> [] \<Longrightarrow> matchHere (u @ rest) = None"
  shows "replaceMatches t p (x @ rest) = x @ replaceMatches t (p @ x) rest"
  using assms
proof (induction x arbitrary: p)
  case Nil
  then show ?case by simp
next
  case (Cons c x)
  have 1: "matchHere (c # x @ rest) = None" using Cons.prems[of "[]" "c # x"] by simp
  have 2: "replaceMatches t (p @ [c]) (x @ rest) = x @ replaceMatches t ((p @ [c]) @ x) rest"
  proof (rule Cons.IH)
    fix v u assume "x = v @ u" "u \<noteq> []"
    then show "matchHere (u @ rest) = None" using Cons.prems[of "c # v" u] by simp
  qed
  show ?case using 1 2 by simp
qed

lemma suffix_not_start:
  assumes "attr \<in> set attributeNames" "q = 0x22 \<or> q = 0x27"
    and "attr @ [0x3D, q, 0x2F, 0x2F] = v @ u" "u \<noteq> []" "v \<noteq> []"
  shows "matchHere (u @ rest) = None"
proof -
  have "set u \<subseteq> set (tl (v @ u))" using assms(5) by (cases v) auto
  then have "hd u \<in> set (tl (attr @ [0x3D, q, 0x2F, 0x2F]))"
    using assms(3,4) by (metis hd_in_set subsetD)
  then have "hd u \<noteq> 0x68 \<and> hd u \<noteq> 0x73 \<and> hd u \<noteq> 0x61"
    using assms(1,2) by (auto simp: attributeNames_def js_def)
  then show ?thesis using assms(4) by (cases u) (auto simp: matchHere_not_start)
qed

lemma replaceMatches_protocol_relative:
  assumes "attr \<in> set attributeNames" "q = 0x22 \<or> q = 0x27"
  shows "replaceMatches t p (attr @ 0x3D # q # 0x2F # 0x2F # rest)
     = attr @ [0x3D, q, 0x2F, 0x2F] @ replaceMatches t (p @ attr @ [0x3D, q, 0x2F, 0x2F]) rest"
proof -
  have "replaceMatches t p ((attr @ [0x3D, q, 0x2F, 0x2F]) @ rest)
     = (attr @ [0x3D, q, 0x2F, 0x2F]) @ replaceMatches t (p @ (attr @ [0x3D, q, 0x2F, 0x2F])) rest"
  proof (rule replaceMatches_copy)
    fix v u assume vu: "attr @ [0x3D, q, 0x2F, 0x2F] = v @ u" "u \<noteq> []"
    show "matchHere (u @ rest) = None"
    proof (cases "v = []")
      case True
      with vu have "u @ rest = attr @ 0x3D # q # 0x2F # 0x2F # rest" by simp
      then show ?thesis using matchHere_double_slash[OF assms(1)] by simp
    next
      case False
      from suffix_not_start[OF assms vu False] show ?thesis .
    qed
  qed
  then show ?thesis by simp
qed

lemma startsAttr_attr: "attr \<in> set attributeNames \<Longrightarrow> startsAttr (attr @ t)"
  by (auto simp: attributeNames_def startsAttr_def js_def)

lemma template_no_dollar:
  "0x24 \<notin> set (protocol @ host @ origin)
     \<Longrightarrow> 0x24 \<notin> set (protocol @ js ''//'' @ host @ js ''/'' @ origin @ js ''/'')"
  by (auto simp: js_def)

text \<open>
  The rewriting when the scheme, the host and the origin have no dollar sign: every
  occurrence of one of the three attributes whose quoted value begins with a single
  slash gets the prefix, every occurrence whose value begins with two slashes stays as
  it is, and the texts before and after the occurrence are rewritten on their own.
\<close>

lemma replaceRelativePaths_without_dollar:
  assumes "0x24 \<notin> set (protocol @ host @ origin)"
    and "attr \<in> set attributeNames" "q = 0x22 \<or> q = 0x27"
  shows "\<not> startsWith rest (js ''/'') \<Longrightarrow>
      replaceRelativePaths (pre @ attr @ 0x3D # q # 0x2F # rest) protocol host origin
        = replaceRelativePaths pre protocol host origin
          @ attr @ [0x3D, q] @ protocol @ js ''//'' @ host @ js ''/'' @ origin @ js ''/''
          @ replaceRelativePaths rest protocol host origin"
    and "replaceRelativePaths (pre @ attr @ 0x3D # q # 0x2F # 0x2F # rest) protocol host origin
        = replaceRelativePaths pre protocol host origin
          @ attr @ [0x3D, q, 0x2F, 0x2F]
          @ replaceRelativePaths rest protocol host origin"
proof -
  define r where "r = protocol @ js ''//'' @ host @ js ''/'' @ origin @ js ''/''"
  have d: "0x24 \<notin> set r" unfolding r_def using assms(1) by (rule template_no_dollar)
  have f: "replaceRelativePaths s protocol host origin = replaceMatches (js ''$1'' @ r) [] s" for s
    by (simp add: replaceRelativePaths_def r_def)
  {
    assume l: "\<not> startsWith rest (js ''/'')"
    note m = matchHere_match[OF assms(2,3) l]
    have "replaceMatches (js ''$1'' @ r) [] (attr @ 0x3D # q # 0x2F # rest)
        = attr @ [0x3D, q] @ r @ replaceMatches (js ''$1'' @ r) [] rest"
      using replaceMatches_Some[OF m d, of "[]"]
        replaceMatches_preceding[OF d, of "attr @ [0x3D, q, 0x2F]" rest "[]"]
      by simp
    then show "replaceRelativePaths (pre @ attr @ 0x3D # q # 0x2F # rest) protocol host origin
        = replaceRelativePaths pre protocol host origin
          @ attr @ [0x3D, q] @ protocol @ js ''//'' @ host @ js ''/'' @ origin @ js ''/''
          @ replaceRelativePaths rest protocol host origin"
      unfolding f
      using replaceMatches_split[OF d startsAttr_attr[OF assms(2), of "0x3D # q # 0x2F # rest"],
          of pre]
      by (simp add: r_def)
  }
  have "replaceMatches (js ''$1'' @ r) [] (attr @ 0x3D # q # 0x2F # 0x2F # rest)
        = attr @ [0x3D, q, 0x2F, 0x2F] @ replaceMatches (js ''$1'' @ r) [] rest"
    using replaceMatches_protocol_relative[OF assms(2,3), of "js ''$1'' @ r" "[]" rest]
      replaceMatches_preceding[OF d, of "attr @ [0x3D, q, 0x2F, 0x2F]" rest "[]"]
    by simp
  then show "replaceRelativePaths (pre @ attr @ 0x3D # q # 0x2F # 0x2F # rest) protocol host origin
        = replaceRelativePaths pre protocol host origin
          @ attr @ [0x3D, q, 0x2F, 0x2F]
          @ replaceRelativePaths rest protocol host origin"
    unfolding f
    using replaceMatches_split[OF d
        startsAttr_attr[OF assms(2), of "0x3D # q # 0x2F # 0x2F # rest"], of pre]
    by simp
qed


lemma replaceRelativePaths_examples:
  "replaceRelativePaths (js ''<a href=\"//x\">'') protocol host origin = js ''<a href=\"//x\">''"
  "0x24 \<notin> set (protocol @ host @ origin) \<Longrightarrow>
     replaceRelativePaths (js ''<a href=\"/x\">'') protocol host origin
       = js ''<a href=\"'' @ protocol @ js ''//'' @ host @ js ''/'' @ origin @ js ''/x\">''"
proof -
  show "replaceRelativePaths (js ''<a href=\"//x\">'') protocol host origin = js ''<a href=\"//x\">''"
    by (simp add: replaceRelativePaths_def js_def matchHere_def matchAttribute_def startsWith_def)
  assume d: "0x24 \<notin> set (protocol @ host @ origin)"
  have h: "js ''href'' \<in> set attributeNames" by (simp add: attributeNames_def)
  have a: "replaceRelativePaths (js ''<a '') protocol host origin = js ''<a ''"
    by (simp add: replaceRelativePaths_def js_def matchHere_def matchAttribute_def startsWith_def)
  have b: "replaceRelativePaths (js ''x\">'') protocol host origin = js ''x\">''"
    by (simp add: replaceRelativePaths_def js_def matchHere_def matchAttribute_def startsWith_def)
  have 2: "js ''<a href=\"/x\">'' = js ''<a '' @ js ''href'' @ 0x3D # 0x22 # 0x2F # js ''x\">''"
    by (simp add: js_def)
  have 3: "\<not> startsWith (js ''x\">'') (js ''/'')" by (simp add: startsWith_def js_def)
  have 4: "(0x22 :: 16 word) = 0x22 \<or> (0x22 :: 16 word) = 0x27" by simp
  show "replaceRelativePaths (js ''<a href=\"/x\">'') protocol host origin
       = js ''<a href=\"'' @ protocol @ js ''//'' @ host @ js ''/'' @ origin @ js ''/x\">''"
    unfolding 2 replaceRelativePaths_without_dollar(1)[OF d h 4 3] a b
    by (simp add: js_def)
qed


text \<open>
  Claim C4 fails on the code where the origin of the target has a dollar sign that
  \<open>String.prototype.replace\<close> reads as a pattern. For the origin
  \<open>http://a$&b.example.org\<close> the text \<open><a href="/x">\<close> does not get the prefix
  \<open>https://p.dev/http://a$&b.example.org/\<close>: the matched text \<open>href="/\<close> stands
  where \<open>$&\<close> was. The second part is the same rewriting as \<open>handleRequest\<close> does it,
  for a request of the path \<open>/http://a$&b.example.org/\<close> and a page with that text.
\<close>

theorem replaceRelativePaths_dollar_origin:
  "replaceRelativePaths (js ''<a href=\"/x\">'') (js ''https:'') (js ''p.dev'')
       (js ''http://a$&b.example.org'')
     = js ''<a href=\"https://p.dev/http://ahref=\"/b.example.org/x\">''
   \<and> js ''<a href=\"https://p.dev/http://ahref=\"/b.example.org/x\">''
       \<noteq> js ''<a href=\"'' @ js ''https:'' @ js ''//'' @ js ''p.dev'' @ js ''/''
           @ js ''http://a$&b.example.org'' @ js ''/x\">''
   \<and> map_sum id res_body
        (handleRequest
           (html_platform (js ''http://a$&b.example.org'') (js ''<a href=\"/x\">''))
           ((example_request [(js ''Authorization'', js ''Basic YWRtaW46cHc='')])
              \<lparr>req_url := \<lparr>url_pathname = js ''/http://a$&b.example.org/'', url_search = [],
                            url_protocol = js ''https:'', url_host = js ''p.dev''\<rparr>\<rparr>)
           \<lparr>PASSWORD = Some (js ''pw'')\<rparr>)
      = Inr (Stream (map of_nat (UTF8Encode
          (js ''<a href=\"https://p.dev/http://ahref=\"/b.example.org/x\">''))))"
  by code_simp

end
